theory Spec2Isabelle
  imports Complex_Main "HOL-Library.AList"
begin

section \<open>Data model\<close>

text \<open>
  The coordinate classes of \<^verbatim>\<open>Coordinate.cc\<close> and \<^verbatim>\<open>CoordinateSystem.cc\<close>.
  \<^verbatim>\<open>Double\<close> is modelled by \<^typ>\<open>real\<close>, \<^verbatim>\<open>Int\<close> by \<^typ>\<open>int\<close> and
  \<^verbatim>\<open>uInt\<close> by \<^typ>\<open>nat\<close>; axis counts stay far below \<open>2^31\<close>, so no
  wrap-around is written out. A \<^verbatim>\<open>Vector\<close> or \<^verbatim>\<open>Block\<close> is a list, a
  \<^verbatim>\<open>Matrix\<close> is the list of its rows (for the linear transform) or of its columns
  (for the bulk conversions, which walk it column by column).
\<close>

datatype Type = LINEAR | DIRECTION | SPECTRAL | STOKES | TABULAR | COORDSYS

text \<open>
  \<^verbatim>\<open>AlwaysAssert(e, AipsError)\<close> throws; the model returns the error as a value. The
  constructors name the assertion that failed, after the error kinds of the specification.
  \<open>IndexOutOfRange\<close> stands for an unchecked \<^verbatim>\<open>operator[]\<close> or \<^verbatim>\<open>operator()\<close>
  outside its block, after which the source has no defined behaviour.
\<close>

datatype error =
    DimensionMismatch
  | InvalidAxis
  | InvalidPermutation
  | InvalidIncrement
  | IndexOutOfRange

text \<open>
  A sub-coordinate as the composite sees it through the abstract class \<^verbatim>\<open>Coordinate\<close>.
  The conversions are virtual: \<open>c_toWorld c out pixel\<close> receives the previous content of
  the output vector and returns the error message of a failed conversion (\<open>None\<close> on
  success) with the new content of the output vector.
\<close>

record Coordinate =
  c_type :: Type
  c_nPixelAxes :: nat
  c_nWorldAxes :: nat
  c_referenceValue :: "real list"
  c_referencePixel :: "real list"
  c_increment :: "real list"
  c_linearTransform :: "real list list"
  c_worldAxisNames :: "string list"
  c_worldAxisUnits :: "string list"
  c_toWorld :: "real list \<Rightarrow> real list \<Rightarrow> string option \<times> real list"
  c_toPixel :: "real list \<Rightarrow> real list \<Rightarrow> string option \<times> real list"
  error_p :: string

text \<open>
  The private members of \<^verbatim>\<open>CoordinateSystem\<close>: seven parallel blocks with one
  element for each sub-coordinate, resized together by \<^verbatim>\<open>addCoordinate\<close> and
  \<^verbatim>\<open>copy\<close>.
\<close>

record CoordinateSystem =
  coordinates_p :: "Coordinate list"
  world_maps_p :: "int list list"
  world_tmps_p :: "real list list"
  world_replacement_values_p :: "real list list"
  pixel_maps_p :: "int list list"
  pixel_tmps_p :: "real list list"
  pixel_replacement_values_p :: "real list list"

definition empty_system :: CoordinateSystem where
  "empty_system = \<lparr>coordinates_p = [], world_maps_p = [], world_tmps_p = [],
     world_replacement_values_p = [], pixel_maps_p = [], pixel_tmps_p = [],
     pixel_replacement_values_p = []\<rparr>"

section \<open>Axis maps\<close>

text \<open>
  \<^verbatim>\<open>nWorldAxes()\<close> and \<^verbatim>\<open>nPixelAxes()\<close> run the same double loop over a block of
  maps, counting the entries that are not negative.
\<close>

definition count_axes :: "int list list \<Rightarrow> nat" where
  "count_axes maps =
     foldl (\<lambda>count m. foldl (\<lambda>count w. if 0 \<le> w then Suc count else count) count m) 0 maps"

definition nCoordinates :: "CoordinateSystem \<Rightarrow> nat" where
  "nCoordinates S = length (coordinates_p S)"

definition nWorldAxes :: "CoordinateSystem \<Rightarrow> nat" where
  "nWorldAxes S = count_axes (world_maps_p S)"

definition nPixelAxes :: "CoordinateSystem \<Rightarrow> nat" where
  "nPixelAxes S = count_axes (pixel_maps_p S)"

text \<open>
  The scan of \<^verbatim>\<open>findWorldAxis\<close> and \<^verbatim>\<open>findPixelAxis\<close>: the first position, in
  coordinate order and then axis order, that holds the wanted axis; \<open>(-1, -1)\<close> when none
  does.
\<close>

fun scan_row :: "int list \<Rightarrow> int \<Rightarrow> nat \<Rightarrow> nat option" where
  "scan_row [] orig j = None"
| "scan_row (w # ws) orig j = (if w = orig then Some j else scan_row ws orig (Suc j))"

fun scan_maps :: "int list list \<Rightarrow> int \<Rightarrow> nat \<Rightarrow> (nat \<times> nat) option" where
  "scan_maps [] orig i = None"
| "scan_maps (m # ms) orig i =
     (case scan_row m orig 0 of
        Some j \<Rightarrow> Some (i, j)
      | None \<Rightarrow> scan_maps ms orig (Suc i))"

definition find_axis :: "int list list \<Rightarrow> int \<Rightarrow> int \<times> int" where
  "find_axis maps orig =
     (case scan_maps maps orig 0 of
        Some (i, j) \<Rightarrow> (int i, int j)
      | None \<Rightarrow> (-1, -1))"

definition findWorldAxis :: "CoordinateSystem \<Rightarrow> nat \<Rightarrow> error + int \<times> int" where
  "findWorldAxis S axisInCoordinateSystem =
     (if axisInCoordinateSystem < nWorldAxes S
      then Inr (find_axis (world_maps_p S) (int axisInCoordinateSystem))
      else Inl InvalidAxis)"

definition findPixelAxis :: "CoordinateSystem \<Rightarrow> nat \<Rightarrow> error + int \<times> int" where
  "findPixelAxis S axisInCoordinateSystem =
     (if axisInCoordinateSystem < nPixelAxes S
      then Inr (find_axis (pixel_maps_p S) (int axisInCoordinateSystem))
      else Inl InvalidAxis)"

text \<open>A checked write into a block of vectors: position \<open>(coord, axis)\<close> must exist.\<close>

definition in_block :: "'a list list \<Rightarrow> int \<Rightarrow> int \<Rightarrow> bool" where
  "in_block b coord axis \<longleftrightarrow>
     0 \<le> coord \<and> nat coord < length b \<and> 0 \<le> axis \<and> nat axis < length (b ! nat coord)"

definition put_block :: "'a list list \<Rightarrow> int \<Rightarrow> int \<Rightarrow> 'a \<Rightarrow> 'a list list" where
  "put_block b coord axis v = b[nat coord := (b ! nat coord)[nat axis := v]]"

section \<open>Mutators of the composite\<close>

definition addCoordinate :: "CoordinateSystem \<Rightarrow> Coordinate \<Rightarrow> CoordinateSystem" where
  "addCoordinate S coord =
     (let oldWorldAxes = nWorldAxes S;
          oldPixelAxes = nPixelAxes S
      in \<lparr>coordinates_p = coordinates_p S @ [coord],
          world_maps_p = world_maps_p S @
            [map (\<lambda>i. int (oldWorldAxes + i)) [0..<c_nWorldAxes coord]],
          world_tmps_p = world_tmps_p S @ [replicate (c_nWorldAxes coord) 0],
          world_replacement_values_p =
            world_replacement_values_p S @ [replicate (c_nWorldAxes coord) 0],
          pixel_maps_p = pixel_maps_p S @
            [map (\<lambda>i. int (oldPixelAxes + i)) [0..<c_nPixelAxes coord]],
          pixel_tmps_p = pixel_tmps_p S @ [replicate (c_nPixelAxes coord) 0],
          pixel_replacement_values_p =
            pixel_replacement_values_p S @ [replicate (c_nPixelAxes coord) 0]\<rparr>)"

text \<open>
  \<^verbatim>\<open>transpose\<close> first verifies that every axis is in the new order once only, with a
  block of flags \<open>found\<close>. The loop is \<^verbatim>\<open>for (i=0; i<found.nelements(); i++)\<close>: it runs
  over the flags, \<open>todo\<close> of them still to come, and reads entry \<open>i\<close> of the order with the
  unchecked \<^verbatim>\<open>operator()\<close> of the vector, so an index past the end of the order is an
  access out of range.
\<close>

fun verify_order :: "int list \<Rightarrow> nat \<Rightarrow> nat \<Rightarrow> nat \<Rightarrow> bool list \<Rightarrow> error + bool list"
  where
  "verify_order order n i 0 found = Inr found"
| "verify_order order n i (Suc todo) found =
     (if length order \<le> i then Inl IndexOutOfRange
      else
        (let which = order ! i in
         if 0 \<le> which \<and> nat which < n \<and> \<not> found ! nat which
         then verify_order order n (Suc i) todo (found[nat which := True])
         else Inl InvalidPermutation))"

text \<open>
  Between the two verifications the block is reused: \<^verbatim>\<open>found.resize(np); found = False;\<close>.
  \<^verbatim>\<open>Block::resize\<close> belongs to the container library, not to \<^verbatim>\<open>CoordinateSystem.cc\<close>; it is
  \<^verbatim>\<open>resize(uInt n, Bool forceSmaller = False, Bool copyElements = True)\<close>: a block asked
  for more elements grows and keeps the ones it has, a block asked for fewer is left as it
  is unless \<open>forceSmaller\<close> is given, and \<^verbatim>\<open>transpose\<close> does not give it. The elements
  gained hold no defined value; the assignment that follows overwrites all of them.
\<close>

definition resize :: "bool list \<Rightarrow> nat \<Rightarrow> bool list" where
  "resize found n =
     (if length found < n then found @ replicate (n - length found) False else found)"

text \<open>
  Then each axis moves to its new home: the axis is looked up in the maps of the system
  (\<open>old\<close>, still unchanged) and the copy \<open>new\<close> is overwritten.
\<close>

fun move_axes :: "int list list \<Rightarrow> int list \<Rightarrow> nat \<Rightarrow> int list list \<Rightarrow> error + int list list"
  where
  "move_axes old [] i new = Inr new"
| "move_axes old (which # rest) i new =
     (case find_axis old which of
        (coord, axis) \<Rightarrow>
          if in_block new coord axis
          then move_axes old rest (Suc i) (put_block new coord axis (int i))
          else Inl IndexOutOfRange)"

definition transpose_sys ::
  "CoordinateSystem \<Rightarrow> int list \<Rightarrow> int list \<Rightarrow> error + CoordinateSystem" where
  "transpose_sys S newWorldOrder newPixelOrder =
     (let nw = length newWorldOrder; np = length newPixelOrder in
      if nw \<noteq> nWorldAxes S then Inl DimensionMismatch
      else if np \<noteq> nPixelAxes S then Inl DimensionMismatch
      else
        (case verify_order newWorldOrder nw 0 nw (replicate nw False) of
           Inl e \<Rightarrow> Inl e
         | Inr found \<Rightarrow>
             (let flags = replicate (length (resize found np)) False in
              case verify_order newPixelOrder np 0 (length flags) flags of
                Inl e \<Rightarrow> Inl e
              | Inr _ \<Rightarrow>
                  (case move_axes (world_maps_p S) newWorldOrder 0 (world_maps_p S) of
                     Inl e \<Rightarrow> Inl e
                   | Inr newWorldMaps \<Rightarrow>
                       (case move_axes (pixel_maps_p S) newPixelOrder 0 (pixel_maps_p S) of
                          Inl e \<Rightarrow> Inl e
                        | Inr newPixelMaps \<Rightarrow>
                            Inr (S\<lparr>world_maps_p := newWorldMaps,
                                   pixel_maps_p := newPixelMaps\<rparr>))))))"

definition shift_down :: "nat \<Rightarrow> int list list \<Rightarrow> int list list" where
  "shift_down axis maps = map (map (\<lambda>w. if w > int axis then w - 1 else w)) maps"

definition removeWorldAxis ::
  "CoordinateSystem \<Rightarrow> nat \<Rightarrow> real \<Rightarrow> error + CoordinateSystem" where
  "removeWorldAxis S axis replacement =
     (if \<not> axis \<le> nWorldAxes S then Inl InvalidAxis
      else
        (case findWorldAxis S axis of
           Inl e \<Rightarrow> Inl e
         | Inr (coord, caxis) \<Rightarrow>
             if in_block (world_replacement_values_p S) coord caxis
                \<and> in_block (world_maps_p S) coord caxis
             then Inr (S\<lparr>world_replacement_values_p :=
                            put_block (world_replacement_values_p S) coord caxis replacement,
                          world_maps_p :=
                            shift_down axis (put_block (world_maps_p S) coord caxis (-1))\<rparr>)
             else Inl IndexOutOfRange))"

definition removePixelAxis ::
  "CoordinateSystem \<Rightarrow> nat \<Rightarrow> real \<Rightarrow> error + CoordinateSystem" where
  "removePixelAxis S axis replacement =
     (if \<not> axis \<le> nPixelAxes S then Inl InvalidAxis
      else
        (case findPixelAxis S axis of
           Inl e \<Rightarrow> Inl e
         | Inr (coord, caxis) \<Rightarrow>
             if in_block (pixel_replacement_values_p S) coord caxis
                \<and> in_block (pixel_maps_p S) coord caxis
             then Inr (S\<lparr>pixel_replacement_values_p :=
                            put_block (pixel_replacement_values_p S) coord caxis replacement,
                          pixel_maps_p :=
                            shift_down axis (put_block (pixel_maps_p S) coord caxis (-1))\<rparr>)
             else Inl IndexOutOfRange))"

definition restoreOriginal :: "CoordinateSystem \<Rightarrow> CoordinateSystem" where
  "restoreOriginal S = foldl addCoordinate empty_system (coordinates_p S)"

definition replaceCoordinate ::
  "CoordinateSystem \<Rightarrow> Coordinate \<Rightarrow> nat \<Rightarrow> error + CoordinateSystem" where
  "replaceCoordinate S newCoordinate which =
     (if which < nCoordinates S
         \<and> c_nPixelAxes newCoordinate = c_nPixelAxes (coordinates_p S ! which)
         \<and> c_nWorldAxes newCoordinate = c_nWorldAxes (coordinates_p S ! which)
      then Inr (S\<lparr>coordinates_p := (coordinates_p S)[which := newCoordinate]\<rparr>)
      else Inl DimensionMismatch)"

text \<open>
  The systems a caller can build: from the empty system by the public mutators. A call
  that throws leaves the system as it was (every assertion precedes the first write).
\<close>

inductive reachable :: "CoordinateSystem \<Rightarrow> bool" where
  reach_empty: "reachable empty_system"
| reach_add: "reachable S \<Longrightarrow> reachable (addCoordinate S coord)"
| reach_removeWorld:
    "reachable S \<Longrightarrow> removeWorldAxis S axis replacement = Inr S' \<Longrightarrow> reachable S'"
| reach_removePixel:
    "reachable S \<Longrightarrow> removePixelAxis S axis replacement = Inr S' \<Longrightarrow> reachable S'"
| reach_transpose:
    "reachable S \<Longrightarrow> transpose_sys S newWorldOrder newPixelOrder = Inr S' \<Longrightarrow> reachable S'"
| reach_replace:
    "reachable S \<Longrightarrow> replaceCoordinate S newCoordinate which = Inr S' \<Longrightarrow> reachable S'"
| reach_restore: "reachable S \<Longrightarrow> reachable (restoreOriginal S)"

text \<open>The exposed axis numbers of a block of maps, in storage order.\<close>

definition exposed :: "int list list \<Rightarrow> int list" where
  "exposed maps = filter (\<lambda>w. 0 \<le> w) (concat maps)"

definition axes_ok :: "int list list \<Rightarrow> bool" where
  "axes_ok maps \<longleftrightarrow>
     distinct (exposed maps) \<and> set (exposed maps) = {0..<int (count_axes maps)}"

section \<open>Auxiliary notions for the axis maps\<close>

text \<open>
  The position of a value in a list, and the relabelling that \<^verbatim>\<open>transpose\<close> applies to
  the maps: an exposed axis \<open>w\<close> becomes the position of \<open>w\<close> in the new order.
\<close>

fun index_of :: "'a list \<Rightarrow> 'a \<Rightarrow> nat" where
  "index_of [] v = 0"
| "index_of (x # xs) v = (if x = v then 0 else Suc (index_of xs v))"

definition relabel_upto :: "int list \<Rightarrow> int list \<Rightarrow> int \<Rightarrow> int" where
  "relabel_upto moved order w = (if w \<in> set moved then int (index_of order w) else w)"

abbreviation relabel :: "int list \<Rightarrow> int \<Rightarrow> int" where
  "relabel order \<equiv> relabel_upto order order"

definition is_order :: "int list \<Rightarrow> nat \<Rightarrow> bool" where
  "is_order order n \<longleftrightarrow> distinct order \<and> set order = {0..<int n}"

text \<open>
  The verification of \<^verbatim>\<open>transpose\<close> seen on the entries of the order alone: each is in
  range and its flag is not yet set.
\<close>

fun entries_ok :: "int list \<Rightarrow> nat \<Rightarrow> bool list \<Rightarrow> bool" where
  "entries_ok [] n found = True"
| "entries_ok (which # rest) n found =
     (if 0 \<le> which \<and> nat which < n \<and> \<not> found ! nat which
      then entries_ok rest n (found[nat which := True])
      else False)"

definition maps_ok :: "CoordinateSystem \<Rightarrow> bool" where
  "maps_ok S \<longleftrightarrow> axes_ok (world_maps_p S) \<and> axes_ok (pixel_maps_p S)"

section \<open>Derived vectors of the composite\<close>

text \<open>
  A loop whose body can fail: the results in order, or the first error.
\<close>

fun for_each :: "(nat \<Rightarrow> error + 'a) \<Rightarrow> nat list \<Rightarrow> error + 'a list" where
  "for_each body [] = Inr []"
| "for_each body (i # rest) =
     (case body i of
        Inl e \<Rightarrow> Inl e
      | Inr v \<Rightarrow> (case for_each body rest of Inl e \<Rightarrow> Inl e | Inr vs \<Rightarrow> Inr (v # vs)))"

text \<open>
  \<^verbatim>\<open>worldAxisNames\<close>, \<^verbatim>\<open>worldAxisUnits\<close>, \<^verbatim>\<open>increment\<close> and
  \<^verbatim>\<open>referenceValue\<close> walk every exposed world axis bk to its coordinate and read
  \<^verbatim>\<open>tmp(coordAxis)\<close> from that coordinate's vector; \<^verbatim>\<open>referencePixel\<close> does the same
  with the pixel axes.
\<close>

definition axis_entry :: "Coordinate list \<Rightarrow> (Coordinate \<Rightarrow> 'a list) \<Rightarrow> int \<Rightarrow> int \<Rightarrow> error + 'a"
  where
  "axis_entry cs vec coord coordAxis =
     (if 0 \<le> coord \<and> nat coord < length cs \<and> 0 \<le> coordAxis
         \<and> nat coordAxis < length (vec (cs ! nat coord))
      then Inr (vec (cs ! nat coord) ! nat coordAxis)
      else Inl IndexOutOfRange)"

definition world_vector :: "CoordinateSystem \<Rightarrow> (Coordinate \<Rightarrow> 'a list) \<Rightarrow> error + 'a list" where
  "world_vector S vec =
     for_each (\<lambda>i. case findWorldAxis S i of
                     Inl e \<Rightarrow> Inl e
                   | Inr (coord, coordAxis) \<Rightarrow> axis_entry (coordinates_p S) vec coord coordAxis)
       [0..<nWorldAxes S]"

definition pixel_vector :: "CoordinateSystem \<Rightarrow> (Coordinate \<Rightarrow> 'a list) \<Rightarrow> error + 'a list" where
  "pixel_vector S vec =
     for_each (\<lambda>i. case findPixelAxis S i of
                     Inl e \<Rightarrow> Inl e
                   | Inr (coord, coordAxis) \<Rightarrow> axis_entry (coordinates_p S) vec coord coordAxis)
       [0..<nPixelAxes S]"

definition worldAxisNames :: "CoordinateSystem \<Rightarrow> error + string list" where
  "worldAxisNames S = world_vector S c_worldAxisNames"

definition worldAxisUnits :: "CoordinateSystem \<Rightarrow> error + string list" where
  "worldAxisUnits S = world_vector S c_worldAxisUnits"

definition referencePixel :: "CoordinateSystem \<Rightarrow> error + real list" where
  "referencePixel S = pixel_vector S c_referencePixel"

definition increment :: "CoordinateSystem \<Rightarrow> error + real list" where
  "increment S = world_vector S c_increment"

definition referenceValue :: "CoordinateSystem \<Rightarrow> error + real list" where
  "referenceValue S = world_vector S c_referenceValue"

text \<open>
  \<^verbatim>\<open>linearTransform\<close>: entry \<open>(i, j)\<close> is the coordinate's own entry when world axis
  \<open>i\<close> and pixel axis \<open>j\<close> live in the same coordinate, and 0 otherwise.
\<close>

definition matrix_entry :: "real list list \<Rightarrow> int \<Rightarrow> int \<Rightarrow> error + real" where
  "matrix_entry tmp r c =
     (if 0 \<le> r \<and> nat r < length tmp \<and> 0 \<le> c \<and> nat c < length (tmp ! nat r)
      then Inr (tmp ! nat r ! nat c)
      else Inl IndexOutOfRange)"

definition linearTransform :: "CoordinateSystem \<Rightarrow> error + real list list" where
  "linearTransform S =
     for_each (\<lambda>i. for_each (\<lambda>j.
         case findWorldAxis S i of
           Inl e \<Rightarrow> Inl e
         | Inr (worldCoord, worldAxis) \<Rightarrow>
             (case findPixelAxis S j of
                Inl e \<Rightarrow> Inl e
              | Inr (pixelCoord, pixelAxis) \<Rightarrow>
                  if worldCoord = pixelCoord \<and> 0 \<le> worldCoord \<and> 0 \<le> worldAxis \<and> 0 \<le> pixelAxis
                  then if nat worldCoord < length (coordinates_p S)
                       then matrix_entry (c_linearTransform (coordinates_p S ! nat worldCoord))
                              worldAxis pixelAxis
                       else Inl IndexOutOfRange
                  else Inr 0))
         [0..<nPixelAxes S])
       [0..<nWorldAxes S]"

text \<open>
  The inverse of an axis order, as a caller of \<^verbatim>\<open>transpose\<close> writes it: position
  \<open>order ! i\<close> of the inverse holds \<open>i\<close>.
\<close>

definition inverse_order :: "int list \<Rightarrow> int list \<Rightarrow> bool" where
  "inverse_order order bk \<longleftrightarrow>
     length bk = length order
     \<and> list_all (\<lambda>i. bk ! nat (order ! i) = int i) [0..<length order]"

section \<open>Setters of the composite\<close>

text \<open>
  Modelled from the spec: the setters of the concrete sub-coordinates (Linear, Direction,
  Spectral, Stokes and Tabular, which are not part of the sources at hand). A setter
  stores a vector that has the coordinate's own number of axes and returns true; it
  refuses a vector of any other length, returns false and changes nothing. The linear
  transform has \<open>c_nWorldAxes\<close> rows of \<open>c_nPixelAxes\<close> entries.
\<close>

definition c_setReferencePixel :: "Coordinate \<Rightarrow> real list \<Rightarrow> bool \<times> Coordinate" where
  "c_setReferencePixel c refPix =
     (if length refPix = c_nPixelAxes c then (True, c\<lparr>c_referencePixel := refPix\<rparr>)
      else (False, c))"

definition c_setIncrement :: "Coordinate \<Rightarrow> real list \<Rightarrow> bool \<times> Coordinate" where
  "c_setIncrement c inc =
     (if length inc = c_nWorldAxes c then (True, c\<lparr>c_increment := inc\<rparr>) else (False, c))"

definition c_setReferenceValue :: "Coordinate \<Rightarrow> real list \<Rightarrow> bool \<times> Coordinate" where
  "c_setReferenceValue c refval =
     (if length refval = c_nWorldAxes c then (True, c\<lparr>c_referenceValue := refval\<rparr>)
      else (False, c))"

definition c_setWorldAxisNames :: "Coordinate \<Rightarrow> string list \<Rightarrow> bool \<times> Coordinate" where
  "c_setWorldAxisNames c names =
     (if length names = c_nWorldAxes c then (True, c\<lparr>c_worldAxisNames := names\<rparr>)
      else (False, c))"

definition c_setLinearTransform :: "Coordinate \<Rightarrow> real list list \<Rightarrow> bool \<times> Coordinate" where
  "c_setLinearTransform c xform =
     (if length xform = c_nWorldAxes c \<and> list_all (\<lambda>r. length r = c_nPixelAxes c) xform
      then (True, c\<lparr>c_linearTransform := xform\<rparr>)
      else (False, c))"

text \<open>
  The vector setters of \<^verbatim>\<open>CoordinateSystem\<close> share one loop: for every coordinate the
  current vector \<open>tmp\<close> is fetched, entry \<open>j\<close> is overwritten by \<open>src(which)\<close> where the
  map entry \<open>which\<close> is not negative, and the coordinate's own setter is called with the
  result. The flag is \<^verbatim>\<open>setter(tmp) && ok\<close>: the setter runs whatever \<open>ok\<close> is.
\<close>

definition scatter :: "int list \<Rightarrow> 'a list \<Rightarrow> 'a list \<Rightarrow> error + 'a list" where
  "scatter amap src tmp =
     for_each (\<lambda>j. if j < length amap
                    then (let which = amap ! j
                          in if 0 \<le> which
                             then (if nat which < length src then Inr (src ! nat which)
                                   else Inl IndexOutOfRange)
                             else Inr (tmp ! j))
                    else Inl IndexOutOfRange)
       [0..<length tmp]"

definition set_vector ::
  "Coordinate list \<Rightarrow> int list list \<Rightarrow> (Coordinate \<Rightarrow> 'a list)
     \<Rightarrow> (Coordinate \<Rightarrow> 'a list \<Rightarrow> bool \<times> Coordinate) \<Rightarrow> 'a list
     \<Rightarrow> error + bool \<times> Coordinate list" where
  "set_vector cs maps getter setter src =
     (case for_each (\<lambda>i. if i < length maps
                          then (case scatter (maps ! i) src (getter (cs ! i)) of
                                  Inl e \<Rightarrow> Inl e
                                | Inr tmp \<Rightarrow> Inr (setter (cs ! i) tmp))
                          else Inl IndexOutOfRange)
             [0..<length cs] of
        Inl e \<Rightarrow> Inl e
      | Inr results \<Rightarrow> Inr (list_all fst results, map snd results))"

definition with_coordinates ::
  "CoordinateSystem \<Rightarrow> error + bool \<times> Coordinate list \<Rightarrow> error + bool \<times> CoordinateSystem" where
  "with_coordinates S r =
     (case r of Inl e \<Rightarrow> Inl e | Inr (ok, cs) \<Rightarrow> Inr (ok, S\<lparr>coordinates_p := cs\<rparr>))"

definition setWorldAxisNames ::
  "CoordinateSystem \<Rightarrow> string list \<Rightarrow> error + bool \<times> CoordinateSystem" where
  "setWorldAxisNames S names =
     with_coordinates S
       (set_vector (coordinates_p S) (world_maps_p S) c_worldAxisNames c_setWorldAxisNames names)"

definition setReferencePixel ::
  "CoordinateSystem \<Rightarrow> real list \<Rightarrow> error + bool \<times> CoordinateSystem" where
  "setReferencePixel S refPix =
     with_coordinates S
       (set_vector (coordinates_p S) (pixel_maps_p S) c_referencePixel c_setReferencePixel refPix)"

definition setIncrement ::
  "CoordinateSystem \<Rightarrow> real list \<Rightarrow> error + bool \<times> CoordinateSystem" where
  "setIncrement S inc =
     with_coordinates S
       (set_vector (coordinates_p S) (world_maps_p S) c_increment c_setIncrement inc)"

definition setReferenceValue ::
  "CoordinateSystem \<Rightarrow> real list \<Rightarrow> error + bool \<times> CoordinateSystem" where
  "setReferenceValue S refval =
     with_coordinates S
       (set_vector (coordinates_p S) (world_maps_p S) c_referenceValue c_setReferenceValue refval)"

subsection \<open>setLinearTransform\<close>

text \<open>
  The inner loop of \<^verbatim>\<open>setLinearTransform\<close> is
  \<^verbatim>\<open>for (uInt k=0; j<ncol; k++)\<close>: it advances \<open>k\<close> and tests \<open>j\<close>. While
  \<open>j < ncol\<close> it therefore runs on until \<open>k\<close> leaves the pixel map.
\<close>

function setLinearTransform_k ::
  "nat \<Rightarrow> nat \<Rightarrow> int list \<Rightarrow> int list \<Rightarrow> real list list \<Rightarrow> nat \<Rightarrow> real list list
     \<Rightarrow> error + real list list" where
  "setLinearTransform_k j ncol wmap pmap xform k tmp =
     (if j < ncol
      then (if j < length wmap \<and> k < length pmap
            then (let whichrow = wmap ! j; whichcol = pmap ! k
                  in if 0 \<le> whichrow \<and> 0 \<le> whichcol
                     then (case matrix_entry xform whichrow whichcol of
                             Inl e \<Rightarrow> Inl e
                           | Inr v \<Rightarrow>
                               if j < length tmp \<and> k < length (tmp ! j)
                               then setLinearTransform_k j ncol wmap pmap xform (Suc k)
                                      (tmp[j := (tmp ! j)[k := v]])
                               else Inl IndexOutOfRange)
                     else setLinearTransform_k j ncol wmap pmap xform (Suc k) tmp)
            else Inl IndexOutOfRange)
      else Inr tmp)"
  by pat_completeness auto
termination
  by (relation "measure (\<lambda>(j, ncol, wmap, pmap, xform, k, tmp). length pmap - k)") auto

declare setLinearTransform_k.simps [simp del]

fun setLinearTransform_j ::
  "nat list \<Rightarrow> nat \<Rightarrow> int list \<Rightarrow> int list \<Rightarrow> real list list \<Rightarrow> real list list
     \<Rightarrow> error + real list list" where
  "setLinearTransform_j [] ncol wmap pmap xform tmp = Inr tmp"
| "setLinearTransform_j (j # rest) ncol wmap pmap xform tmp =
     (case setLinearTransform_k j ncol wmap pmap xform 0 tmp of
        Inl e \<Rightarrow> Inl e
      | Inr tmp' \<Rightarrow> setLinearTransform_j rest ncol wmap pmap xform tmp')"

definition ncolumn :: "'a list list \<Rightarrow> nat" where
  "ncolumn m = (case m of [] \<Rightarrow> 0 | r # _ \<Rightarrow> length r)"

definition setLinearTransform ::
  "CoordinateSystem \<Rightarrow> real list list \<Rightarrow> error + bool \<times> CoordinateSystem" where
  "setLinearTransform S xform =
     with_coordinates S
       (case for_each
          (\<lambda>i. if i < length (world_maps_p S) \<and> i < length (pixel_maps_p S)
                then (let tmp = c_linearTransform (coordinates_p S ! i)
                      in case setLinearTransform_j [0..<length tmp] (ncolumn tmp)
                                (world_maps_p S ! i) (pixel_maps_p S ! i) xform tmp of
                           Inl e \<Rightarrow> Inl e
                         | Inr tmp' \<Rightarrow> Inr (c_setLinearTransform (coordinates_p S ! i) tmp'))
                else Inl IndexOutOfRange)
          [0..<nCoordinates S] of
          Inl e \<Rightarrow> Inl e
        | Inr results \<Rightarrow> Inr (list_all fst results, map snd results))"

subsection \<open>subImage\<close>

text \<open>
  \<^verbatim>\<open>subImage\<close> works on a copy: it reads the reference pixel (one entry for each pixel
  axis) and the increment (one entry for each world axis), rescales entry \<open>i\<close> of both
  for every pixel axis \<open>i\<close>, and stores them with the two setters, whose flags it drops.
\<close>

fun subImage_loop ::
  "nat list \<Rightarrow> int list \<Rightarrow> int list \<Rightarrow> real list \<Rightarrow> real list \<Rightarrow> error + real list \<times> real list"
  where
  "subImage_loop [] originShift pixinc crpix cdelt = Inr (crpix, cdelt)"
| "subImage_loop (i # rest) originShift pixinc crpix cdelt =
     (if \<not> 1 \<le> pixinc ! i then Inl InvalidIncrement
      else if i < length crpix \<and> i < length cdelt
      then subImage_loop rest originShift pixinc
             (crpix[i := (crpix ! i - real_of_int (originShift ! i)) / real_of_int (pixinc ! i)])
             (cdelt[i := cdelt ! i * real_of_int (pixinc ! i)])
      else Inl IndexOutOfRange)"

definition subImage :: "CoordinateSystem \<Rightarrow> int list \<Rightarrow> int list \<Rightarrow> error + CoordinateSystem"
  where
  "subImage S originShift pixinc =
     (if \<not> (length originShift = nPixelAxes S \<and> length pixinc = nPixelAxes S)
      then Inl DimensionMismatch
      else if length originShift \<noteq> length pixinc then Inl DimensionMismatch
      else
        (case referencePixel S of
           Inl e \<Rightarrow> Inl e
         | Inr crpix \<Rightarrow>
             (case increment S of
                Inl e \<Rightarrow> Inl e
              | Inr cdelt \<Rightarrow>
                  (case subImage_loop [0..<nPixelAxes S] originShift pixinc crpix cdelt of
                     Inl e \<Rightarrow> Inl e
                   | Inr (crpix', cdelt') \<Rightarrow>
                       (case setReferencePixel S crpix' of
                          Inl e \<Rightarrow> Inl e
                        | Inr (ok1, coords) \<Rightarrow>
                            (case setIncrement coords cdelt' of
                               Inl e \<Rightarrow> Inl e
                             | Inr (ok2, coords') \<Rightarrow> Inr coords'))))))"

section \<open>Conversions of the composite\<close>

text \<open>
  \<^verbatim>\<open>toWorld\<close>, for each coordinate \<open>i\<close>: fill the pixel temporary from the caller's
  vector or from the replacement values, run
  \<^verbatim>\<open>ok = ToBool(ok && coordinates_p[i]->toWorld(world_tmp, pixel_tmp))\<close>, and copy the
  exposed entries of the world temporary to the caller's world vector. C++ evaluates the
  right operand of \<^verbatim>\<open>&&\<close> only when the left one is true. The last component of the
  result is not in the source: it lists, in order, the coordinates whose own conversion
  was called.
\<close>

fun fill_tmp :: "int list \<Rightarrow> nat \<Rightarrow> real list \<Rightarrow> real list \<Rightarrow> real list \<Rightarrow> error + real list"
  where
  "fill_tmp [] j src repl tmp = Inr tmp"
| "fill_tmp (wh # rest) j src repl tmp =
     (if j < length tmp
      then (if 0 \<le> wh
            then (if nat wh < length src
                  then fill_tmp rest (Suc j) src repl (tmp[j := src ! nat wh])
                  else Inl IndexOutOfRange)
            else (if j < length repl
                  then fill_tmp rest (Suc j) src repl (tmp[j := repl ! j])
                  else Inl IndexOutOfRange))
      else Inl IndexOutOfRange)"

fun copy_out :: "int list \<Rightarrow> nat \<Rightarrow> real list \<Rightarrow> real list \<Rightarrow> error + real list" where
  "copy_out [] j tmp out = Inr out"
| "copy_out (wh # rest) j tmp out =
     (if 0 \<le> wh
      then (if nat wh < length out \<and> j < length tmp
            then copy_out rest (Suc j) tmp (out[nat wh := tmp ! j])
            else Inl IndexOutOfRange)
      else copy_out rest (Suc j) tmp out)"

definition has_coordinate :: "CoordinateSystem \<Rightarrow> nat \<Rightarrow> bool" where
  "has_coordinate S i \<longleftrightarrow>
     i < length (coordinates_p S) \<and> i < length (world_maps_p S) \<and> i < length (world_tmps_p S)
     \<and> i < length (world_replacement_values_p S) \<and> i < length (pixel_maps_p S)
     \<and> i < length (pixel_tmps_p S) \<and> i < length (pixel_replacement_values_p S)"

fun toWorld_loop ::
  "nat list \<Rightarrow> real list \<Rightarrow> bool \<times> real list \<times> CoordinateSystem \<times> nat list
     \<Rightarrow> error + bool \<times> real list \<times> CoordinateSystem \<times> nat list" where
  "toWorld_loop [] pixel st = Inr st"
| "toWorld_loop (i # rest) pixel (ok, world, S, calls) =
     (if has_coordinate S i
      then
        (case fill_tmp (pixel_maps_p S ! i) 0 pixel (pixel_replacement_values_p S ! i)
                (pixel_tmps_p S ! i) of
           Inl e \<Rightarrow> Inl e
         | Inr ptmp \<Rightarrow>
             (case (if ok
                    then (case c_toWorld (coordinates_p S ! i) (world_tmps_p S ! i) ptmp of
                            (err, w) \<Rightarrow> (err = None, w, calls @ [i]))
                    else (False, world_tmps_p S ! i, calls)) of
                (ok', wtmp, calls') \<Rightarrow>
                  (case copy_out (world_maps_p S ! i) 0 wtmp world of
                     Inl e \<Rightarrow> Inl e
                   | Inr world' \<Rightarrow>
                       toWorld_loop rest pixel
                         (ok', world',
                          S\<lparr>pixel_tmps_p := (pixel_tmps_p S)[i := ptmp],
                            world_tmps_p := (world_tmps_p S)[i := wtmp]\<rparr>,
                          calls'))))
      else Inl IndexOutOfRange)"

definition toWorld ::
  "CoordinateSystem \<Rightarrow> real list \<Rightarrow> real list
     \<Rightarrow> error + bool \<times> real list \<times> CoordinateSystem \<times> nat list" where
  "toWorld S world pixel =
     toWorld_loop [0..<length (coordinates_p S)] pixel (True, world, S, [])"

fun toPixel_loop ::
  "nat list \<Rightarrow> real list \<Rightarrow> bool \<times> real list \<times> CoordinateSystem \<times> nat list
     \<Rightarrow> error + bool \<times> real list \<times> CoordinateSystem \<times> nat list" where
  "toPixel_loop [] world st = Inr st"
| "toPixel_loop (i # rest) world (ok, pixel, S, calls) =
     (if has_coordinate S i
      then
        (case fill_tmp (world_maps_p S ! i) 0 world (world_replacement_values_p S ! i)
                (world_tmps_p S ! i) of
           Inl e \<Rightarrow> Inl e
         | Inr wtmp \<Rightarrow>
             (case (if ok
                    then (case c_toPixel (coordinates_p S ! i) (pixel_tmps_p S ! i) wtmp of
                            (err, p) \<Rightarrow> (err = None, p, calls @ [i]))
                    else (False, pixel_tmps_p S ! i, calls)) of
                (ok', ptmp, calls') \<Rightarrow>
                  (case copy_out (pixel_maps_p S ! i) 0 ptmp pixel of
                     Inl e \<Rightarrow> Inl e
                   | Inr pixel' \<Rightarrow>
                       toPixel_loop rest world
                         (ok', pixel',
                          S\<lparr>world_tmps_p := (world_tmps_p S)[i := wtmp],
                            pixel_tmps_p := (pixel_tmps_p S)[i := ptmp]\<rparr>,
                          calls'))))
      else Inl IndexOutOfRange)"

definition toPixel ::
  "CoordinateSystem \<Rightarrow> real list \<Rightarrow> real list
     \<Rightarrow> error + bool \<times> real list \<times> CoordinateSystem \<times> nat list" where
  "toPixel S pixel world =
     toPixel_loop [0..<length (coordinates_p S)] world (True, pixel, S, [])"

section \<open>Comparison of two systems\<close>

text \<open>
  \<^verbatim>\<open>worldAxes(whichCoord)\<close> and \<^verbatim>\<open>pixelAxes(whichCoord)\<close>: where each axis of one
  coordinate is exposed, \<open>-1\<close> for a removed axis.
\<close>

fun axes_loop ::
  "(nat \<Rightarrow> error + int \<times> int) \<Rightarrow> int \<Rightarrow> nat list \<Rightarrow> int list \<Rightarrow> error + int list" where
  "axes_loop findAxis whichCoord [] retval = Inr retval"
| "axes_loop findAxis whichCoord (i # rest) retval =
     (case findAxis i of
        Inl e \<Rightarrow> Inl e
      | Inr (coord, axis) \<Rightarrow>
          if coord = whichCoord
          then (if 0 \<le> axis \<and> nat axis < length retval
                then axes_loop findAxis whichCoord rest (retval[nat axis := int i])
                else Inl IndexOutOfRange)
          else axes_loop findAxis whichCoord rest retval)"

definition worldAxes :: "CoordinateSystem \<Rightarrow> nat \<Rightarrow> error + int list" where
  "worldAxes S whichCoord =
     (if whichCoord < nCoordinates S
      then axes_loop (findWorldAxis S) (int whichCoord) [0..<nWorldAxes S]
             (replicate (c_nWorldAxes (coordinates_p S ! whichCoord)) (-1))
      else Inl InvalidAxis)"

definition pixelAxes :: "CoordinateSystem \<Rightarrow> nat \<Rightarrow> error + int list" where
  "pixelAxes S whichCoord =
     (if whichCoord < nCoordinates S
      then axes_loop (findPixelAxis S) (int whichCoord) [0..<nPixelAxes S]
             (replicate (c_nPixelAxes (coordinates_p S ! whichCoord)) (-1))
      else Inl InvalidAxis)"

text \<open>
  \<^verbatim>\<open>near\<close> with a list of excluded pixel axes. Both arguments are systems, so the first
  test (of \<^verbatim>\<open>type()\<close>) passes. The comparison of two sub-coordinates is virtual and is the
  parameter \<open>cnear\<close>. In the loop over the coordinates, the list \<open>excludeAxes\<close> collects
  the axes of coordinate \<open>i\<close> that are excluded (an \<^verbatim>\<open>Int\<close> that is negative becomes a
  large \<^verbatim>\<open>uInt\<close> and fails the assertion of \<^verbatim>\<open>findPixelAxis\<close>); the branch for a
  coordinate with an unremoved world axis ends in a \<^verbatim>\<open>return\<close>.
\<close>

fun exclude_loop :: "CoordinateSystem \<Rightarrow> nat \<Rightarrow> int list \<Rightarrow> int list \<Rightarrow> error + int list" where
  "exclude_loop S i [] excludeAxes = Inr excludeAxes"
| "exclude_loop S i (e # rest) excludeAxes =
     (if e < 0 then Inl InvalidAxis
      else (case findPixelAxis S (nat e) of
              Inl err \<Rightarrow> Inl err
            | Inr (coord, axisInCoord) \<Rightarrow>
                exclude_loop S i rest
                  (if coord = int i then excludeAxes @ [axisInCoord] else excludeAxes)))"

fun same_axes :: "CoordinateSystem \<Rightarrow> CoordinateSystem \<Rightarrow> int list \<Rightarrow> error + bool" where
  "same_axes S cSys [] = Inr True"
| "same_axes S cSys (w # rest) =
     (if 0 \<le> w
      then (case findWorldAxis S (nat w) of
              Inl e \<Rightarrow> Inl e
            | Inr (coord1, axisInCoord1) \<Rightarrow>
                (case findWorldAxis cSys (nat w) of
                   Inl e \<Rightarrow> Inl e
                 | Inr (coord2, axisInCoord2) \<Rightarrow>
                     if coord1 \<noteq> coord2 then Inr False
                     else if axisInCoord1 \<noteq> axisInCoord2 then Inr False
                     else same_axes S cSys rest))
      else same_axes S cSys rest)"

fun near_loop ::
  "(Coordinate \<Rightarrow> Coordinate \<Rightarrow> int list \<Rightarrow> real \<Rightarrow> bool) \<Rightarrow> CoordinateSystem \<Rightarrow> CoordinateSystem
     \<Rightarrow> int list \<Rightarrow> real \<Rightarrow> nat list \<Rightarrow> error + bool" where
  "near_loop cnear S cSys excludePixelAxes tol [] = Inr True"
| "near_loop cnear S cSys excludePixelAxes tol (i # rest) =
     (if c_type (coordinates_p S ! i) \<noteq> c_type (coordinates_p cSys ! i) then Inr False
      else
        (case pixelAxes S i of Inl e \<Rightarrow> Inl e | Inr pa \<Rightarrow>
        (case pixelAxes cSys i of Inl e \<Rightarrow> Inl e | Inr pa' \<Rightarrow>
           if length pa \<noteq> length pa' then Inr False
           else if pa \<noteq> pa' then Inr False
           else
             (case worldAxes S i of Inl e \<Rightarrow> Inl e | Inr wa \<Rightarrow>
             (case worldAxes cSys i of Inl e \<Rightarrow> Inl e | Inr wa' \<Rightarrow>
                if length wa \<noteq> length wa' then Inr False
                else if wa \<noteq> wa' then Inr False
                else if \<not> list_all (\<lambda>w. \<not> 0 \<le> w) wa
                then
                  (case exclude_loop S i excludePixelAxes [] of
                     Inl e \<Rightarrow> Inl e
                   | Inr excludeAxes \<Rightarrow>
                       (case same_axes S cSys wa of
                          Inl e \<Rightarrow> Inl e
                        | Inr same \<Rightarrow>
                            if \<not> same then Inr False
                            else Inr (cnear (coordinates_p S ! i) (coordinates_p cSys ! i)
                                        excludeAxes tol)))
                else near_loop cnear S cSys excludePixelAxes tol rest)))))"

definition near ::
  "(Coordinate \<Rightarrow> Coordinate \<Rightarrow> int list \<Rightarrow> real \<Rightarrow> bool) \<Rightarrow> CoordinateSystem \<Rightarrow> CoordinateSystem
     \<Rightarrow> int list \<Rightarrow> real \<Rightarrow> error + bool" where
  "near cnear S cSys excludePixelAxes tol =
     (if nCoordinates S \<noteq> nCoordinates cSys then Inr False
      else if nPixelAxes S \<noteq> nPixelAxes cSys then Inr False
      else if nWorldAxes S \<noteq> nWorldAxes cSys then Inr False
      else near_loop cnear S cSys excludePixelAxes tol [0..<nCoordinates S])"

section \<open>The spectral axis in toFITSHeader\<close>

text \<open>
  \<^verbatim>\<open>findCoordinate(type, afterCoord)\<close>: the first coordinate of the wanted type after
  position \<open>afterCoord\<close>, or \<open>-1\<close>.
\<close>

fun find_type :: "Coordinate list \<Rightarrow> Type \<Rightarrow> nat \<Rightarrow> int" where
  "find_type [] t i = -1"
| "find_type (c # cs) t i = (if c_type c = t then int i else find_type cs t (Suc i))"

definition findCoordinate :: "CoordinateSystem \<Rightarrow> Type \<Rightarrow> int \<Rightarrow> int" where
  "findCoordinate S t afterCoord =
     (let start = nat ((if afterCoord < -1 then -1 else afterCoord) + 1)
      in find_type (drop start (coordinates_p S)) t start)"

text \<open>
  The special axes that \<^verbatim>\<open>toFITSHeader\<close> looks for in the loop over the world axes:
  longitude and latitude of the first Direction coordinate, the axis of the first Spectral
  coordinate and the axis of the first Stokes coordinate; each is \<open>-1\<close> when absent.
\<close>

record special_axes =
  longAxis :: int
  latAxis :: int
  specAxis :: int
  stokesAxis :: int

fun special_loop ::
  "CoordinateSystem \<Rightarrow> int \<Rightarrow> int \<Rightarrow> int \<Rightarrow> nat list \<Rightarrow> special_axes \<Rightarrow> error + special_axes"
  where
  "special_loop S skyCoord specCoord stokesCoord [] ax = Inr ax"
| "special_loop S skyCoord specCoord stokesCoord (i # rest) ax =
     (case findWorldAxis S i of
        Inl e \<Rightarrow> Inl e
      | Inr (c, a) \<Rightarrow>
          special_loop S skyCoord specCoord stokesCoord rest
            (if c = skyCoord
             then (if a = 0 then ax\<lparr>longAxis := int i\<rparr>
                   else if a = 1 then ax\<lparr>latAxis := int i\<rparr>
                   else ax)
             else if c = specCoord then ax\<lparr>specAxis := int i\<rparr>
             else if c = stokesCoord then ax\<lparr>stokesAxis := int i\<rparr>
             else ax))"

definition find_special_axes :: "CoordinateSystem \<Rightarrow> error + special_axes" where
  "find_special_axes S =
     special_loop S (findCoordinate S DIRECTION (-1)) (findCoordinate S SPECTRAL (-1))
       (findCoordinate S STOKES (-1)) [0..<nWorldAxes S]
       \<lparr>longAxis = -1, latAxis = -1, specAxis = -1, stokesAxis = -1\<rparr>"

text \<open>
  The part of \<^verbatim>\<open>toFITSHeader\<close> that decides whether the FITS routine of the
  SpectralCoordinate is called: the early \<^verbatim>\<open>return False\<close> when the header already
  holds one of the five keywords, the search for the special axes, and the last statement
  of the function, \<^verbatim>\<open>if (specAxis > 1) { ... spec.toFITS(header, specAxis, ...); }\<close>. The
  keyword computations in between assign neither \<open>specCoord\<close> nor \<open>specAxis\<close> and hold
  no \<^verbatim>\<open>return\<close>. The header is given by the names of its fields. The result is the flag
  that \<^verbatim>\<open>toFITSHeader\<close> returns, with the coordinate and axis of the call of
  \<^verbatim>\<open>toFITS\<close> when one is made.
\<close>

definition header_collision :: "string list \<Rightarrow> char \<Rightarrow> bool" where
  "header_collision header prefix \<longleftrightarrow>
     [prefix] @ ''rval'' \<in> set header \<or> [prefix] @ ''rpix'' \<in> set header
     \<or> [prefix] @ ''delt'' \<in> set header \<or> [prefix] @ ''type'' \<in> set header
     \<or> [prefix] @ ''unit'' \<in> set header"

definition toFITSHeader_spectral ::
  "CoordinateSystem \<Rightarrow> string list \<Rightarrow> char \<Rightarrow> error + bool \<times> (int \<times> int) option" where
  "toFITSHeader_spectral S header prefix =
     (if header_collision header prefix then Inr (False, None)
      else (case find_special_axes S of
              Inl e \<Rightarrow> Inl e
            | Inr ax \<Rightarrow>
                if specAxis ax > 1
                then Inr (True, Some (findCoordinate S SPECTRAL (-1), specAxis ax))
                else Inr (True, None)))"

section \<open>Change of the world axis units\<close>

text \<open>
  The unit algebra is not part of the sources at hand; it is the parameter \<open>parse\<close>, which
  gives the dimension and the scale of a unit string that it knows:
  \<^verbatim>\<open>UnitVal::check(s)\<close> is \<open>parse s \<noteq> None\<close>, two values of \<^verbatim>\<open>getValue()\<close> are equal
  when the dimensions are, and \<^verbatim>\<open>getFac()\<close> is the scale.

  \<^verbatim>\<open>find_scale_factor\<close> stops at the first axis that fails; its result is the error
  message or the vector of factors.
\<close>

fun find_scale_factor_loop ::
  "(string \<Rightarrow> ('d \<times> real) option) \<Rightarrow> string list \<Rightarrow> string list \<Rightarrow> nat list \<Rightarrow> real list
     \<Rightarrow> string + real list" where
  "find_scale_factor_loop parse units oldUnits [] factor = Inr factor"
| "find_scale_factor_loop parse units oldUnits (i # rest) factor =
     (case (parse (oldUnits ! i), parse (units ! i)) of
        (Some (beforeDim, beforeFac), Some (afterDim, afterFac)) \<Rightarrow>
          if beforeDim = afterDim
          then find_scale_factor_loop parse units oldUnits rest
                 (factor[i := beforeFac / afterFac])
          else Inl ''Units are not compatible dimensionally''
      | _ \<Rightarrow> Inl ''Unknown unit - cannot calculate scaling'')"

definition find_scale_factor ::
  "(string \<Rightarrow> ('d \<times> real) option) \<Rightarrow> string list \<Rightarrow> string list \<Rightarrow> string + real list" where
  "find_scale_factor parse units oldUnits =
     (if length units \<noteq> length oldUnits
      then Inl ''units and oldUnits are different sizes!''
      else find_scale_factor_loop parse units oldUnits [0..<length units]
             (replicate (length units) 0))"

text \<open>
  \<^verbatim>\<open>Coordinate::setWorldAxisUnits\<close>, with the comment of the source: it "does everything
  except set the units vector, which must be done in the derived class". The element-wise
  product of two vectors throws when their lengths differ (here \<open>DimensionMismatch\<close>).
  \<^verbatim>\<open>setIncrement\<close> and \<^verbatim>\<open>setReferenceValue\<close> are the setters of the sub-coordinate.
\<close>

definition times_vec :: "real list \<Rightarrow> real list \<Rightarrow> error + real list" where
  "times_vec xs ys =
     (if length xs = length ys then Inr (map (\<lambda>(x, y). x * y) (zip xs ys))
      else Inl DimensionMismatch)"

definition setWorldAxisUnits ::
  "(string \<Rightarrow> ('d \<times> real) option) \<Rightarrow> Coordinate \<Rightarrow> string list \<Rightarrow> error + bool \<times> Coordinate"
  where
  "setWorldAxisUnits parse c units =
     (if length units \<noteq> c_nWorldAxes c
      then Inr (False, c\<lparr>error_p := ''Wrong number of elements in units vector''\<rparr>)
      else if length (c_worldAxisUnits c) \<noteq> length units then Inl DimensionMismatch
      else if c_worldAxisUnits c = units then Inr (True, c)
      else
        (case find_scale_factor parse units (c_worldAxisUnits c) of
           Inl msg \<Rightarrow> Inr (False, c\<lparr>error_p := msg\<rparr>)
         | Inr factor \<Rightarrow>
             (case times_vec (c_increment c) factor of
                Inl e \<Rightarrow> Inl e
              | Inr inc \<Rightarrow>
                  (case c_setIncrement c inc of
                     (ok, c1) \<Rightarrow>
                       if ok
                       then (case times_vec (c_referenceValue c1) factor of
                               Inl e \<Rightarrow> Inl e
                             | Inr refval \<Rightarrow> Inr (c_setReferenceValue c1 refval))
                       else Inr (ok, c1)))))"

text \<open>
  The statement of the specification, word for word: the scale factor of axis \<open>i\<close> is the
  scale of the old unit over the scale of the new one, defined when both units parse and
  have one dimension.
\<close>

definition scale_ratio :: "(string \<Rightarrow> ('d \<times> real) option) \<Rightarrow> string \<Rightarrow> string \<Rightarrow> real option"
  where
  "scale_ratio parse old new =
     (case (parse old, parse new) of
        (Some (d, s), Some (d', s')) \<Rightarrow> if d = d' then Some (s / s') else None
      | _ \<Rightarrow> None)"

definition coord_ok :: "Coordinate \<Rightarrow> bool" where
  "coord_ok c \<longleftrightarrow>
     length (c_referenceValue c) = c_nWorldAxes c
     \<and> length (c_increment c) = c_nWorldAxes c
     \<and> length (c_worldAxisNames c) = c_nWorldAxes c
     \<and> length (c_worldAxisUnits c) = c_nWorldAxes c
     \<and> length (c_referencePixel c) = c_nPixelAxes c
     \<and> length (c_linearTransform c) = c_nWorldAxes c
     \<and> list_all (\<lambda>r. length r = c_nPixelAxes c) (c_linearTransform c)"

section \<open>Saving a system to a record\<close>

text \<open>
  A record of the container library, as far as \<^verbatim>\<open>save\<close> uses it: fields in the order of
  their definition, each an integer vector, a vector of doubles or a sub-record.
  \<^verbatim>\<open>define\<close> gives a field a value, appending the field when the record has none of that
  name.
\<close>

datatype field = IntVector "int list" | DoubleVector "real list" | SubRecord "(string \<times> field) list"

type_synonym keyed_record = "(string \<times> field) list"

definition isDefined :: "keyed_record \<Rightarrow> string \<Rightarrow> bool" where
  "isDefined r name \<longleftrightarrow> name \<in> set (map fst r)"

definition define_field :: "keyed_record \<Rightarrow> string \<Rightarrow> field \<Rightarrow> keyed_record" where
  "define_field r name v = AList.update name v r"

definition defineRecord :: "keyed_record \<Rightarrow> string \<Rightarrow> keyed_record \<Rightarrow> keyed_record" where
  "defineRecord r name sub = define_field r name (SubRecord sub)"

text \<open>
  Modelled from the spec: \<^verbatim>\<open>save\<close> of a concrete sub-coordinate (Linear, Direction,
  Spectral, Stokes, Tabular or a nested system, reached through the virtual call). It
  defines one sub-record under the given name, whose content \<open>own c\<close> this model leaves
  open, and returns true; when the record already has a field of that name it defines
  nothing and returns false.
\<close>

definition c_save ::
  "(Coordinate \<Rightarrow> keyed_record) \<Rightarrow> Coordinate \<Rightarrow> keyed_record \<Rightarrow> string \<Rightarrow> bool \<times> keyed_record"
  where
  "c_save own c r name =
     (if isDefined r name then (False, r) else (True, defineRecord r name (own c)))"

text \<open>The decimal digits that \<^verbatim>\<open>onum << i\<close> writes.\<close>

definition digit_char :: "nat \<Rightarrow> char" where
  "digit_char d = ''0123456789'' ! d"

fun decimal :: "nat \<Rightarrow> string" where
  "decimal n = (if n < 10 then [digit_char n] else decimal (n div 10) @ [digit_char (n mod 10)])"

declare decimal.simps [simp del]

fun basename :: "Type \<Rightarrow> string" where
  "basename LINEAR = ''linear''"
| "basename DIRECTION = ''direction''"
| "basename SPECTRAL = ''spectral''"
| "basename STOKES = ''stokes''"
| "basename TABULAR = ''tabular''"
| "basename COORDSYS = ''coordsys''"

text \<open>
  \<^verbatim>\<open>CoordinateSystem::save\<close>. The flag that the sub-coordinate's \<^verbatim>\<open>save\<close> returns is
  dropped by the source.
\<close>

fun save_loop ::
  "(Coordinate \<Rightarrow> keyed_record) \<Rightarrow> CoordinateSystem \<Rightarrow> nat list \<Rightarrow> keyed_record
     \<Rightarrow> error + keyed_record" where
  "save_loop own S [] subrec = Inr subrec"
| "save_loop own S (i # rest) subrec =
     (if has_coordinate S i
      then (let num = decimal i;
                name = basename (c_type (coordinates_p S ! i)) @ num;
                subrec1 = snd (c_save own (coordinates_p S ! i) subrec name);
                subrec2 = define_field subrec1 (''worldmap'' @ num)
                            (IntVector (world_maps_p S ! i));
                subrec3 = define_field subrec2 (''worldreplace'' @ num)
                            (DoubleVector (world_replacement_values_p S ! i));
                subrec4 = define_field subrec3 (''pixelmap'' @ num)
                            (IntVector (pixel_maps_p S ! i));
                subrec5 = define_field subrec4 (''pixelreplace'' @ num)
                            (DoubleVector (pixel_replacement_values_p S ! i))
            in save_loop own S rest subrec5)
      else Inl IndexOutOfRange)"

definition save ::
  "(Coordinate \<Rightarrow> keyed_record) \<Rightarrow> CoordinateSystem \<Rightarrow> keyed_record \<Rightarrow> string
     \<Rightarrow> error + bool \<times> keyed_record" where
  "save own S container fieldName =
     (if isDefined container fieldName then Inr (False, container)
      else (case save_loop own S [0..<length (coordinates_p S)] [] of
              Inl e \<Rightarrow> Inl e
            | Inr subrec \<Rightarrow> Inr (True, defineRecord container fieldName subrec)))"

text \<open>
  The content of the sub-record in the words of the specification: for the \<open>k\<close>-th
  sub-coordinate its own record, named by its kind and \<open>k\<close>, and the four fields
  \<open>worldmap<k>\<close>, \<open>worldreplace<k>\<close>, \<open>pixelmap<k>\<close> and \<open>pixelreplace<k>\<close>.
\<close>

definition saved_fields :: "(Coordinate \<Rightarrow> keyed_record) \<Rightarrow> CoordinateSystem \<Rightarrow> nat \<Rightarrow> keyed_record"
  where
  "saved_fields own S k =
     [(basename (c_type (coordinates_p S ! k)) @ decimal k, SubRecord (own (coordinates_p S ! k))),
      (''worldmap'' @ decimal k, IntVector (world_maps_p S ! k)),
      (''worldreplace'' @ decimal k, DoubleVector (world_replacement_values_p S ! k)),
      (''pixelmap'' @ decimal k, IntVector (pixel_maps_p S ! k)),
      (''pixelreplace'' @ decimal k, DoubleVector (pixel_replacement_values_p S ! k))]"

text \<open>
  The shape that the mutators keep: every block has one element for each coordinate, and
  the maps, temporaries and replacement vectors of a coordinate have its numbers of axes.
\<close>

definition shape_ok :: "CoordinateSystem \<Rightarrow> bool" where
  "shape_ok S \<longleftrightarrow>
     length (world_maps_p S) = length (coordinates_p S)
     \<and> length (world_tmps_p S) = length (coordinates_p S)
     \<and> length (world_replacement_values_p S) = length (coordinates_p S)
     \<and> length (pixel_maps_p S) = length (coordinates_p S)
     \<and> length (pixel_tmps_p S) = length (coordinates_p S)
     \<and> length (pixel_replacement_values_p S) = length (coordinates_p S)
     \<and> (\<forall>i < length (coordinates_p S).
           length (world_maps_p S ! i) = c_nWorldAxes (coordinates_p S ! i)
           \<and> length (world_tmps_p S ! i) = c_nWorldAxes (coordinates_p S ! i)
           \<and> length (world_replacement_values_p S ! i) = c_nWorldAxes (coordinates_p S ! i)
           \<and> length (pixel_maps_p S ! i) = c_nPixelAxes (coordinates_p S ! i)
           \<and> length (pixel_tmps_p S ! i) = c_nPixelAxes (coordinates_p S ! i)
           \<and> length (pixel_replacement_values_p S ! i) = c_nPixelAxes (coordinates_p S ! i))"

text \<open>
  Notions for the names of the fields: a decimal digit, a name without digits, and a record
  whose field names all end in the number of a coordinate outside a given set.
\<close>

definition is_digit :: "char \<Rightarrow> bool" where
  "is_digit ch \<longleftrightarrow> ch \<in> set ''0123456789''"

definition plain :: "string \<Rightarrow> bool" where
  "plain p \<longleftrightarrow> (\<forall>ch \<in> set p. \<not> is_digit ch)"

definition keys_avoid :: "keyed_record \<Rightarrow> nat set \<Rightarrow> bool" where
  "keys_avoid r idx \<longleftrightarrow>
     (\<forall>name \<in> set (map fst r). \<exists>p j. name = p @ decimal j \<and> plain p \<and> j \<notin> idx)"

section \<open>Example systems\<close>

text \<open>
  The identity linear coordinate of the first scenario of the specification, with \<open>n\<close>
  axes, and a system built from two of them by \<^verbatim>\<open>addCoordinate\<close>, \<^verbatim>\<open>transpose\<close>
  and \<^verbatim>\<open>removeWorldAxis\<close>.
\<close>

definition linear_coord :: "nat \<Rightarrow> Coordinate" where
  "linear_coord n =
     \<lparr>c_type = LINEAR, c_nPixelAxes = n, c_nWorldAxes = n,
      c_referenceValue = replicate n 0, c_referencePixel = replicate n 0,
      c_increment = replicate n 1,
      c_linearTransform = map (\<lambda>i. map (\<lambda>j. if i = j then 1 else 0) [0..<n]) [0..<n],
      c_worldAxisNames = replicate n '''', c_worldAxisUnits = replicate n '''',
      c_toWorld = (\<lambda>out pixel. (None, pixel)),
      c_toPixel = (\<lambda>out world. (None, world)),
      error_p = ''''\<rparr>"

definition ex_system :: CoordinateSystem where
  "ex_system =
     \<lparr>coordinates_p = [linear_coord 2, linear_coord 1],
      world_maps_p = [[-1, 1], [0]],
      world_tmps_p = [[0, 0], [0]],
      world_replacement_values_p = [[5, 0], [0]],
      pixel_maps_p = [[1, 2], [0]],
      pixel_tmps_p = [[0, 0], [0]],
      pixel_replacement_values_p = [[0, 0], [0]]\<rparr>"

text \<open>A system with one identity linear coordinate of one axis.\<close>

definition one_linear :: CoordinateSystem where
  "one_linear = addCoordinate empty_system (linear_coord 1)"

text \<open>
  A one-axis coordinate whose conversions always fail and leave the output vector as it
  was, and the system of this coordinate followed by an identity linear coordinate.
\<close>

definition failing_coord :: Coordinate where
  "failing_coord =
     (linear_coord 1)\<lparr>c_toWorld := (\<lambda>out pixel. (Some ''no world'', out)),
                      c_toPixel := (\<lambda>out world. (Some ''no pixel'', out))\<rparr>"

definition two_coords :: CoordinateSystem where
  "two_coords = addCoordinate (addCoordinate empty_system failing_coord) (linear_coord 1)"

text \<open>
  Two systems of two one-axis linear coordinates each, which differ in the reference value
  of the second coordinate only, and a comparison of two sub-coordinates by their axis
  descriptors with the relative tolerance of the specification.
\<close>

definition shifted_coord :: Coordinate where
  "shifted_coord = (linear_coord 1)\<lparr>c_referenceValue := [7]\<rparr>"

definition pair_a :: CoordinateSystem where
  "pair_a = addCoordinate (addCoordinate empty_system (linear_coord 1)) (linear_coord 1)"

definition pair_b :: CoordinateSystem where
  "pair_b = addCoordinate (addCoordinate empty_system (linear_coord 1)) shifted_coord"

definition near_values :: "real \<Rightarrow> real list \<Rightarrow> real list \<Rightarrow> bool" where
  "near_values tol xs ys = list_all2 (\<lambda>x y. \<bar>x - y\<bar> \<le> tol * max \<bar>x\<bar> \<bar>y\<bar>) xs ys"

definition descriptor_near :: "Coordinate \<Rightarrow> Coordinate \<Rightarrow> int list \<Rightarrow> real \<Rightarrow> bool" where
  "descriptor_near a b excludeAxes tol \<longleftrightarrow>
     c_type a = c_type b
     \<and> near_values tol (c_referenceValue a) (c_referenceValue b)
     \<and> near_values tol (c_increment a) (c_increment b)
     \<and> near_values tol (c_referencePixel a) (c_referencePixel b)"

text \<open>
  A one-axis Spectral coordinate; the system that holds it alone, the system that holds it
  after a one-axis linear coordinate, and the system that holds it after a two-axis one.
\<close>

definition spectral_coord :: Coordinate where
  "spectral_coord = (linear_coord 1)\<lparr>c_type := SPECTRAL\<rparr>"

definition spectral_at_0 :: CoordinateSystem where
  "spectral_at_0 = addCoordinate empty_system spectral_coord"

definition spectral_at_1 :: CoordinateSystem where
  "spectral_at_1 = addCoordinate (addCoordinate empty_system (linear_coord 1)) spectral_coord"

definition spectral_at_2 :: CoordinateSystem where
  "spectral_at_2 = addCoordinate (addCoordinate empty_system (linear_coord 2)) spectral_coord"

text \<open>
  A small unit algebra (metres, kilometres and seconds), and a one-axis linear coordinate
  in kilometres with increment 2 and reference value 3.
\<close>

definition toy_units :: "string \<Rightarrow> (string \<times> real) option" where
  "toy_units s =
     (if s = ''km'' then Some (''length'', 1000)
      else if s = ''m'' then Some (''length'', 1)
      else if s = ''s'' then Some (''time'', 1)
      else None)"

definition km_coord :: Coordinate where
  "km_coord = (linear_coord 1)\<lparr>c_increment := [2], c_referenceValue := [3],
                               c_worldAxisUnits := [''km'']\<rparr>"

text \<open>A content for the record of a sub-coordinate: its reference value.\<close>

definition own_crval :: "Coordinate \<Rightarrow> keyed_record" where
  "own_crval c = [(''crval'', DoubleVector (c_referenceValue c))]"

text \<open>
  A relative comparison with tolerance \<open>10^-13\<close>, and a one-axis coordinate that doubles
  a pixel that is not negative and refuses a negative one, leaving the output as it was.
\<close>

definition near13 :: "real \<Rightarrow> real \<Rightarrow> bool" where
  "near13 a b \<longleftrightarrow> \<bar>a - b\<bar> \<le> max \<bar>a\<bar> \<bar>b\<bar> / 10000000000000"

definition doubling_coord :: Coordinate where
  "doubling_coord =
     (linear_coord 1)\<lparr>c_toWorld := (\<lambda>out pixel. if pixel ! 0 < 0 then (Some ''negative'', out)
                                               else (None, [2 * pixel ! 0])),
                      c_toPixel := (\<lambda>out world. if world ! 0 < 0 then (Some ''negative'', out)
                                               else (None, [world ! 0 / 2]))\<rparr>"

text \<open>
  The sixth scenario of the specification: a two-axis linear system with reference pixel
  \<open>(256, 256)\<close> and increment \<open>(1, 1)\<close>. And the same system after its world axis 1 has been
  removed, which leaves two pixel axes and one world axis.
\<close>

definition image_coord :: Coordinate where
  "image_coord = (linear_coord 2)\<lparr>c_referencePixel := [256, 256]\<rparr>"

definition image_sys :: CoordinateSystem where
  "image_sys = addCoordinate empty_system image_coord"

definition fewer_world :: CoordinateSystem where
  "fewer_world =
     \<lparr>coordinates_p = [image_coord], world_maps_p = [[0, -1]], world_tmps_p = [[0, 0]],
      world_replacement_values_p = [[0, 0]], pixel_maps_p = [[0, 1]],
      pixel_tmps_p = [[0, 0]], pixel_replacement_values_p = [[0, 0]]\<rparr>"

text \<open>
  A linear coordinate with two axes whose second pixel axis has been removed: two world
  axes and one pixel axis are left.
\<close>

definition fewer_pixel :: CoordinateSystem where
  "fewer_pixel =
     \<lparr>coordinates_p = [linear_coord 2], world_maps_p = [[0, 1]], world_tmps_p = [[0, 0]],
      world_replacement_values_p = [[0, 0]], pixel_maps_p = [[0, -1]],
      pixel_tmps_p = [[0, 0]], pixel_replacement_values_p = [[0, 0]]\<rparr>"

section \<open>Bulk conversions of a coordinate\<close>

text \<open>
  \<^verbatim>\<open>Coordinate::toWorldMany\<close> and \<^verbatim>\<open>Coordinate::toPixelMany\<close> are the same loop with
  the roles of pixel and world exchanged; \<open>conv\<close> is the scalar conversion (\<^verbatim>\<open>toWorld\<close>
  or \<^verbatim>\<open>toPixel\<close> of the class at hand) and \<open>nOut\<close> the number of rows of the output.
  The matrices are lists of columns; a column of the output that is never written is
  \<open>None\<close>. The function \<^verbatim>\<open>::near\<close> of the mathematics library is not part of the
  sources at hand and is the parameter \<open>nr\<close>. Vectors that the source leaves
  uninitialised start with zeros.

  The test of one column against the previous one:
  \<^verbatim>\<open>if (l==0 || (l!=0 && !::near(pixTmp[k],lastPix[k]))) same = False\<close> for every row.
\<close>

definition same_column :: "(real \<Rightarrow> real \<Rightarrow> bool) \<Rightarrow> nat \<Rightarrow> real list \<Rightarrow> real list \<Rightarrow> bool"
  where
  "same_column nr l col lastCol =
     list_all (\<lambda>k. \<not> (l = 0 \<or> (l \<noteq> 0 \<and> \<not> nr (col ! k) (lastCol ! k)))) [0..<length col]"

text \<open>\<^verbatim>\<open>failures.resize(n, True)\<close> keeps the old entries that fit.\<close>

definition resize_copy :: "nat \<Rightarrow> int list \<Rightarrow> int list" where
  "resize_copy n v = take n v @ replicate (n - length v) 0"

record bulk_state =
  b_last :: "real list"
  b_tmp :: "real list"
  b_out :: "real list option list"
  b_nError :: nat
  b_failures :: "int list"
  b_errorMsg :: string

fun bulk_loop ::
  "(real \<Rightarrow> real \<Rightarrow> bool) \<Rightarrow> (real list \<Rightarrow> real list \<Rightarrow> string option \<times> real list) \<Rightarrow> nat
     \<Rightarrow> real list list \<Rightarrow> nat \<Rightarrow> bulk_state \<Rightarrow> error + bulk_state" where
  "bulk_loop nr conv nOut [] l st = Inr st"
| "bulk_loop nr conv nOut (col # rest) l st =
     (if same_column nr l col (b_last st)
      then (if nOut \<le> length (b_tmp st)
            then bulk_loop nr conv nOut rest (Suc l)
                   (st\<lparr>b_out := b_out st @ [Some (take nOut (b_tmp st))], b_last := col\<rparr>)
            else Inl IndexOutOfRange)
      else (case conv (b_tmp st) col of
              (Some msg, w) \<Rightarrow>
                (let nError = Suc (b_nError st);
                     failures = (if nError > length (b_failures st)
                                 then resize_copy (2 * nError) (b_failures st)
                                 else b_failures st)
                 in bulk_loop nr conv nOut rest (Suc l)
                      (st\<lparr>b_tmp := w, b_out := b_out st @ [None], b_nError := nError,
                          b_failures := failures[nError - 1 := int l],
                          b_errorMsg := (if nError = 1 then msg else b_errorMsg st),
                          b_last := col\<rparr>))
            | (None, w) \<Rightarrow>
                if nOut \<le> length w
                then bulk_loop nr conv nOut rest (Suc l)
                       (st\<lparr>b_tmp := w, b_out := b_out st @ [Some (take nOut w)],
                           b_last := col\<rparr>)
                else Inl IndexOutOfRange))"

definition bulk ::
  "(real \<Rightarrow> real \<Rightarrow> bool) \<Rightarrow> (real list \<Rightarrow> real list \<Rightarrow> string option \<times> real list) \<Rightarrow> nat \<Rightarrow> nat
     \<Rightarrow> Coordinate \<Rightarrow> real list list \<Rightarrow> int list
     \<Rightarrow> error + nat \<times> real list option list \<times> int list \<times> Coordinate" where
  "bulk nr conv nIn nOut c inp failures =
     (if \<not> list_all (\<lambda>col. length col = nIn) inp then Inl DimensionMismatch
      else (case bulk_loop nr conv nOut inp 0
                   \<lparr>b_last = replicate nIn 0, b_tmp = replicate nOut 0, b_out = [],
                    b_nError = 0, b_failures = failures, b_errorMsg = ''''\<rparr> of
              Inl e \<Rightarrow> Inl e
            | Inr st \<Rightarrow>
                Inr (b_nError st, b_out st, b_failures st,
                     if b_nError st \<noteq> 0 then c\<lparr>error_p := b_errorMsg st\<rparr> else c)))"

definition toWorldMany ::
  "(real \<Rightarrow> real \<Rightarrow> bool) \<Rightarrow> Coordinate \<Rightarrow> real list list \<Rightarrow> int list
     \<Rightarrow> error + nat \<times> real list option list \<times> int list \<times> Coordinate" where
  "toWorldMany nr c pixel failures =
     bulk nr (c_toWorld c) (c_nPixelAxes c) (c_nWorldAxes c) c pixel failures"

definition toPixelMany ::
  "(real \<Rightarrow> real \<Rightarrow> bool) \<Rightarrow> Coordinate \<Rightarrow> real list list \<Rightarrow> int list
     \<Rightarrow> error + nat \<times> real list option list \<times> int list \<times> Coordinate" where
  "toPixelMany nr c world failures =
     bulk nr (c_toPixel c) (c_nWorldAxes c) (c_nPixelAxes c) c world failures"

text \<open>
  The scalar conversion of one column as the specification speaks of it: whether it
  succeeds and what it gives. A conversion is \<open>steady\<close> when neither depends on the old
  content of its output vector and a successful result has \<open>nOut\<close> entries.
\<close>

definition scalar_ok :: "(real list \<Rightarrow> real list \<Rightarrow> string option \<times> real list) \<Rightarrow> real list \<Rightarrow> bool"
  where
  "scalar_ok conv col \<longleftrightarrow> fst (conv [] col) = None"

definition scalar_result ::
  "(real list \<Rightarrow> real list \<Rightarrow> string option \<times> real list) \<Rightarrow> real list \<Rightarrow> real list" where
  "scalar_result conv col = snd (conv [] col)"

definition steady :: "(real list \<Rightarrow> real list \<Rightarrow> string option \<times> real list) \<Rightarrow> nat \<Rightarrow> bool" where
  "steady conv nOut \<longleftrightarrow>
     (\<forall>out col. (fst (conv out col) = None) = scalar_ok conv col
        \<and> (scalar_ok conv col \<longrightarrow>
              snd (conv out col) = scalar_result conv col
              \<and> length (scalar_result conv col) = nOut))"

text \<open>
  The columns that the cache may answer without harm: a column that passes the test
  against its predecessor is not the first, equals its predecessor, and converts.
\<close>

definition cache_exact ::
  "(real \<Rightarrow> real \<Rightarrow> bool) \<Rightarrow> (real list \<Rightarrow> real list \<Rightarrow> string option \<times> real list)
     \<Rightarrow> real list list \<Rightarrow> bool" where
  "cache_exact nr conv inp \<longleftrightarrow>
     (\<forall>t < length inp. same_column nr t (inp ! t) (inp ! (t - 1)) \<longrightarrow>
        0 < t \<and> inp ! t = inp ! (t - 1) \<and> scalar_ok conv (inp ! t))"

definition expected_out ::
  "(real list \<Rightarrow> real list \<Rightarrow> string option \<times> real list) \<Rightarrow> real list list
     \<Rightarrow> real list option list" where
  "expected_out conv inp =
     map (\<lambda>col. if scalar_ok conv col then Some (scalar_result conv col) else None) inp"

definition failing_columns ::
  "(real list \<Rightarrow> real list \<Rightarrow> string option \<times> real list) \<Rightarrow> real list list \<Rightarrow> int list" where
  "failing_columns conv inp =
     map int (filter (\<lambda>t. \<not> scalar_ok conv (inp ! t)) [0..<length inp])"

text \<open>What holds after the columns \<open>seen\<close> have been handled.\<close>

definition bulk_inv ::
  "(real list \<Rightarrow> real list \<Rightarrow> string option \<times> real list) \<Rightarrow> real list list \<Rightarrow> bulk_state \<Rightarrow> bool"
  where
  "bulk_inv conv seen st \<longleftrightarrow>
     b_out st = expected_out conv seen
     \<and> b_nError st \<le> length (b_failures st)
     \<and> take (b_nError st) (b_failures st) = failing_columns conv seen
     \<and> (seen \<noteq> [] \<longrightarrow>
          b_last st = last seen
          \<and> (scalar_ok conv (last seen) \<longrightarrow> b_tmp st = scalar_result conv (last seen)))"

section \<open>Auxiliary notions for the derived vectors and the setters\<close>

text \<open>
  The common loop of the derived vectors over a block of maps, and the vector that the
  common loop of the setters hands to the setter of one coordinate.
\<close>

definition gather :: "int list list \<Rightarrow> Coordinate list \<Rightarrow> (Coordinate \<Rightarrow> 'a list) \<Rightarrow> error + 'a list"
  where
  "gather maps cs vec =
     for_each (\<lambda>i. case find_axis maps (int i) of
                     (coord, coordAxis) \<Rightarrow> axis_entry cs vec coord coordAxis)
       [0..<count_axes maps]"

definition scattered :: "int list \<Rightarrow> 'a list \<Rightarrow> 'a list \<Rightarrow> 'a list" where
  "scattered amap src tmp =
     map (\<lambda>j. if 0 \<le> amap ! j then src ! nat (amap ! j) else tmp ! j) [0..<length tmp]"

text \<open>
  The coordinates after a setter of the composite has stored \<open>src\<close> through the maps,
  when every coordinate accepts its vector; \<open>upd\<close> writes the vector into a coordinate.
\<close>

definition stored ::
  "int list list \<Rightarrow> Coordinate list \<Rightarrow> (Coordinate \<Rightarrow> 'a list) \<Rightarrow> ('a list \<Rightarrow> Coordinate \<Rightarrow> Coordinate)
     \<Rightarrow> 'a list \<Rightarrow> Coordinate list" where
  "stored maps cs getter upd src =
     map (\<lambda>i. upd (scattered (maps ! i) src (getter (cs ! i))) (cs ! i)) [0..<length cs]"

definition put_referencePixel :: "real list \<Rightarrow> Coordinate \<Rightarrow> Coordinate" where
  "put_referencePixel v c = c\<lparr>c_referencePixel := v\<rparr>"

definition put_increment :: "real list \<Rightarrow> Coordinate \<Rightarrow> Coordinate" where
  "put_increment v c = c\<lparr>c_increment := v\<rparr>"

text \<open>
  The two vectors that \<^verbatim>\<open>subImage\<close> stores, in the words of the specification: the
  reference pixel of pixel axis \<open>i\<close> becomes \<open>(refpix[i] - origin_shift[i]) / inc[i]\<close>, and
  entry \<open>i\<close> of the increment becomes \<open>increment[i] * inc[i]\<close> for every pixel axis \<open>i\<close>.
\<close>

definition sub_refpix :: "real list \<Rightarrow> int list \<Rightarrow> int list \<Rightarrow> real list" where
  "sub_refpix crpix originShift pixinc =
     map (\<lambda>i. (crpix ! i - real_of_int (originShift ! i)) / real_of_int (pixinc ! i))
       [0..<length crpix]"

definition sub_increment :: "nat \<Rightarrow> real list \<Rightarrow> int list \<Rightarrow> real list" where
  "sub_increment n cdelt pixinc =
     map (\<lambda>i. if i < n then cdelt ! i * real_of_int (pixinc ! i) else cdelt ! i)
       [0..<length cdelt]"

section \<open>The axis maps stay a numbering of the exposed axes\<close>

lemma count_row: "foldl (\<lambda>count w. if (0::int) \<le> w then Suc count else count) c m
    = c + length (filter (\<lambda>w. 0 \<le> w) m)"
  by (induction m arbitrary: c) auto

lemma count_axes_from:
  "foldl (\<lambda>count m. foldl (\<lambda>count w. if (0::int) \<le> w then Suc count else count) count m) c maps
    = c + length (exposed maps)"
  by (induction maps arbitrary: c) (auto simp: exposed_def count_row)

lemma count_axes_exposed: "count_axes maps = length (exposed maps)"
  by (simp add: count_axes_def count_axes_from)

lemma scan_row_None: "scan_row ws v j = None \<longleftrightarrow> v \<notin> set ws"
  by (induction ws arbitrary: j) auto

lemma scan_row_Some:
  "scan_row ws v j = Some k \<Longrightarrow> j \<le> k \<and> k - j < length ws \<and> ws ! (k - j) = v"
proof (induction ws arbitrary: j)
  case Nil
  then show ?case by simp
next
  case (Cons w ws)
  show ?case
  proof (cases "w = v")
    case True
    with Cons.prems show ?thesis by simp
  next
    case False
    with Cons.prems have "scan_row ws v (Suc j) = Some k" by simp
    from Cons.IH [OF this] show ?thesis
      by (auto simp: Suc_diff_Suc less_eq_Suc_le)
  qed
qed

lemma scan_row_mem: "scan_row ws v j = Some k \<Longrightarrow> v \<in> set ws"
  using scan_row_None [of ws v j] by auto

lemma scan_maps_None: "scan_maps maps v i = None \<longleftrightarrow> v \<notin> set (concat maps)"
  by (induction maps arbitrary: i) (auto simp: scan_row_None dest: scan_row_mem split: option.splits)

lemma scan_maps_Some:
  "scan_maps maps v i = Some (c, a) \<Longrightarrow>
     i \<le> c \<and> c - i < length maps \<and> a < length (maps ! (c - i)) \<and> maps ! (c - i) ! a = v"
proof (induction maps arbitrary: i)
  case Nil
  then show ?case by simp
next
  case (Cons m ms)
  show ?case
  proof (cases "scan_row m v 0")
    case None
    with Cons.prems have "scan_maps ms v (Suc i) = Some (c, a)" by simp
    from Cons.IH [OF this] show ?thesis
      by (auto simp: Suc_diff_Suc less_eq_Suc_le)
  next
    case (Some j)
    with Cons.prems have "c = i" "a = j" by simp_all
    with scan_row_Some [OF Some] show ?thesis by simp
  qed
qed

lemma find_axis_found:
  assumes "v \<in> set (concat maps)"
  shows "\<exists>c a. find_axis maps v = (int c, int a) \<and> c < length maps
           \<and> a < length (maps ! c) \<and> maps ! c ! a = v"
proof -
  from assms obtain c a where s: "scan_maps maps v 0 = Some (c, a)"
    using scan_maps_None [of maps v 0] by (cases "scan_maps maps v 0") auto
  from scan_maps_Some [OF s] show ?thesis
    by (auto simp: find_axis_def s)
qed

lemma distinct_filter_nth:
  "distinct (filter P xs) \<Longrightarrow> i < length xs \<Longrightarrow> j < length xs \<Longrightarrow> xs ! i = xs ! j
     \<Longrightarrow> P (xs ! i) \<Longrightarrow> i = j"
proof (induction xs arbitrary: i j)
  case Nil
  then show ?case by simp
next
  case (Cons x xs)
  show ?case
  proof (cases i)
    case 0
    note i0 = this
    show ?thesis
    proof (cases j)
      case 0
      with i0 show ?thesis by simp
    next
      case (Suc j')
      with i0 Cons.prems have "P x" "x \<in> set xs" by (auto simp: nth_mem)
      with Cons.prems(1) show ?thesis by simp
    qed
  next
    case (Suc i')
    note iS = this
    show ?thesis
    proof (cases j)
      case 0
      with iS Cons.prems have "P x" "x \<in> set xs"
        by simp (metis Cons.prems(2,4) iS 0 Suc_less_eq length_Cons nth_Cons_0 nth_Cons_Suc nth_mem)
      with Cons.prems(1) show ?thesis by simp
    next
      case (Suc j')
      with iS Cons.prems have "i' = j'"
        by (intro Cons.IH) (auto split: if_splits)
      with iS Suc show ?thesis by simp
    qed
  qed
qed

lemma exposed_Cons: "exposed (m # ms) = filter (\<lambda>w. 0 \<le> w) m @ exposed ms"
  by (simp add: exposed_def)

lemma exposed_mem:
  "c < length maps \<Longrightarrow> a < length (maps ! c) \<Longrightarrow> 0 \<le> maps ! c ! a
     \<Longrightarrow> maps ! c ! a \<in> set (exposed maps)"
  by (auto simp: exposed_def intro!: bexI [of _ "maps ! c"])

lemma position_unique:
  "distinct (exposed maps) \<Longrightarrow> c < length maps \<Longrightarrow> a < length (maps ! c)
     \<Longrightarrow> c' < length maps \<Longrightarrow> a' < length (maps ! c') \<Longrightarrow> maps ! c ! a = maps ! c' ! a'
     \<Longrightarrow> 0 \<le> maps ! c ! a \<Longrightarrow> c = c' \<and> a = a'"
proof (induction maps arbitrary: c c')
  case Nil
  then show ?case by simp
next
  case (Cons m ms)
  from Cons.prems(1) have d: "distinct (filter (\<lambda>w. 0 \<le> w) m)" "distinct (exposed ms)"
    and dj: "set (filter (\<lambda>w. 0 \<le> w) m) \<inter> set (exposed ms) = {}"
    by (simp_all add: exposed_Cons)
  show ?case
  proof (cases c)
    case 0
    note c0 = this
    show ?thesis
    proof (cases c')
      case 0
      with c0 Cons.prems d(1) show ?thesis
        using distinct_filter_nth [of "\<lambda>w. 0 \<le> w" m a a'] by simp
    next
      case (Suc k)
      with c0 Cons.prems have e: "m ! a = ms ! k ! a'" "0 \<le> m ! a" "a < length m"
        "k < length ms" "a' < length (ms ! k)" by simp_all
      from e(2,3) have "m ! a \<in> set (filter (\<lambda>w. 0 \<le> w) m)" by simp
      moreover have "m ! a \<in> set (exposed ms)"
        using exposed_mem [of k ms a'] e by simp
      ultimately show ?thesis using dj by blast
    qed
  next
    case (Suc k)
    note cS = this
    show ?thesis
    proof (cases c')
      case 0
      with cS Cons.prems have e: "ms ! k ! a = m ! a'" "0 \<le> m ! a'" "a' < length m"
        "k < length ms" "a < length (ms ! k)" by simp_all
      from e(2,3) have "m ! a' \<in> set (filter (\<lambda>w. 0 \<le> w) m)" by simp
      moreover have "m ! a' \<in> set (exposed ms)"
        using exposed_mem [of k ms a] e by simp
      ultimately show ?thesis using dj by blast
    next
      case (Suc k')
      with cS Cons.prems d(2) have "k = k' \<and> a = a'"
        by (intro Cons.IH) auto
      with cS Suc show ?thesis by simp
    qed
  qed
qed

lemma put_block_map:
  assumes c: "c < length old" and a: "a < length (old ! c)"
    and u: "\<And>c' a'. c' < length old \<Longrightarrow> a' < length (old ! c') \<Longrightarrow>
               old ! c' ! a' = old ! c ! a \<Longrightarrow> c' = c \<and> a' = a"
  shows "put_block (map (map g) old) (int c) (int a) x = map (map (g(old ! c ! a := x))) old"
proof (rule nth_equalityI)
  show "length (put_block (map (map g) old) (int c) (int a) x)
      = length (map (map (g(old ! c ! a := x))) old)"
    by (simp add: put_block_def)
next
  fix i assume "i < length (put_block (map (map g) old) (int c) (int a) x)"
  then have i: "i < length old" by (simp add: put_block_def)
  show "put_block (map (map g) old) (int c) (int a) x ! i
      = map (map (g(old ! c ! a := x))) old ! i"
  proof (cases "i = c")
    case True
    have "(map g (old ! c))[a := x] = map (g(old ! c ! a := x)) (old ! c)"
    proof (rule nth_equalityI)
      show "length ((map g (old ! c))[a := x]) = length (map (g(old ! c ! a := x)) (old ! c))"
        by simp
    next
      fix j assume "j < length ((map g (old ! c))[a := x])"
      then have j: "j < length (old ! c)" by simp
      show "(map g (old ! c))[a := x] ! j = map (g(old ! c ! a := x)) (old ! c) ! j"
        using j a c u [of c j] by (cases "j = a") auto
    qed
    with True c show ?thesis by (simp add: put_block_def)
  next
    case False
    have "map g (old ! i) = map (g(old ! c ! a := x)) (old ! i)"
      using u [of i] i False by (auto simp: in_set_conv_nth)
    with False i show ?thesis by (simp add: put_block_def)
  qed
qed

lemma exposed_map:
  "exposed (map (map g) maps) = map g (filter (\<lambda>w. 0 \<le> g w) (concat maps))"
  by (simp add: exposed_def map_concat [symmetric] filter_map comp_def)

lemma distinct_range_length:
  "distinct E \<Longrightarrow> set E = {0..<int k} \<Longrightarrow> length E = k"
  using distinct_card [of E] by simp

lemma index_of_less: "v \<in> set xs \<Longrightarrow> index_of xs v < length xs"
  by (induction xs) auto

lemma nth_index_of: "v \<in> set xs \<Longrightarrow> xs ! index_of xs v = v"
  by (induction xs) auto

lemma index_of_nth: "distinct xs \<Longrightarrow> i < length xs \<Longrightarrow> index_of xs (xs ! i) = i"
proof (induction xs arbitrary: i)
  case Nil
  then show ?case by simp
next
  case (Cons x xs)
  then show ?case by (cases i) (auto simp: nth_mem)
qed

lemma index_of_append: "index_of (xs @ [v]) v = (if v \<in> set xs then index_of xs v else length xs)"
  by (induction xs) auto

lemma entries_ok_sound:
  "entries_ok order n found \<Longrightarrow> length found = n \<Longrightarrow>
     distinct order \<and> (\<forall>w \<in> set order. 0 \<le> w \<and> nat w < n \<and> \<not> found ! nat w)"
proof (induction order arbitrary: found)
  case Nil
  then show ?case by simp
next
  case (Cons which rest)
  from Cons.prems have h: "0 \<le> which" "nat which < n" "\<not> found ! nat which"
    and r: "entries_ok rest n (found[nat which := True])"
    by (auto split: if_splits)
  from Cons.IH [OF r] Cons.prems(2)
  have d: "distinct rest"
    and b: "\<forall>w \<in> set rest. 0 \<le> w \<and> nat w < n \<and> \<not> found[nat which := True] ! nat w"
    by simp_all
  have "which \<notin> set rest"
  proof
    assume "which \<in> set rest"
    with b have "\<not> found[nat which := True] ! nat which" by blast
    with h Cons.prems(2) show False by simp
  qed
  moreover have "\<forall>w \<in> set rest. \<not> found ! nat w"
  proof
    fix w assume w: "w \<in> set rest"
    with b have "\<not> found[nat which := True] ! nat w" "nat w < n" by blast+
    with Cons.prems(2) show "\<not> found ! nat w"
      by (cases "nat w = nat which") auto
  qed
  ultimately show ?case using d b h by auto
qed

lemma entries_ok_complete:
  "distinct order \<Longrightarrow> (\<forall>w \<in> set order. 0 \<le> w \<and> nat w < n \<and> \<not> found ! nat w)
     \<Longrightarrow> length found = n \<Longrightarrow> entries_ok order n found"
proof (induction order arbitrary: found)
  case Nil
  then show ?case by simp
next
  case (Cons which rest)
  have "\<forall>w \<in> set rest. 0 \<le> w \<and> nat w < n \<and> \<not> found[nat which := True] ! nat w"
  proof
    fix w assume w: "w \<in> set rest"
    with Cons.prems have "w \<noteq> which" "0 \<le> w" "0 \<le> which" "nat w < n" "\<not> found ! nat w"
      by auto
    then show "0 \<le> w \<and> nat w < n \<and> \<not> found[nat which := True] ! nat w"
      by (auto simp: nth_list_update)
  qed
  with Cons show ?case by simp
qed

lemma is_order_length: "is_order order n \<Longrightarrow> length order = n"
  by (simp add: is_order_def distinct_range_length)

lemma entries_ok_is_order:
  "length order = n \<Longrightarrow> entries_ok order n (replicate n False) = is_order order n"
proof
  assume len: "length order = n" and v: "entries_ok order n (replicate n False)"
  from entries_ok_sound [OF v] have d: "distinct order"
    and b: "\<forall>w \<in> set order. 0 \<le> w \<and> nat w < n" by simp_all
  from b have sub: "set order \<subseteq> {0..<int n}" by auto
  have "card (set order) = n" using d len by (simp add: distinct_card)
  then have "card (set order) = card {0..<int n}" by simp
  with sub have "set order = {0..<int n}"
    by (intro card_subset_eq) auto
  with d show "is_order order n" by (simp add: is_order_def)
next
  assume len: "length order = n" and o: "is_order order n"
  then show "entries_ok order n (replicate n False)"
    by (intro entries_ok_complete) (auto simp: is_order_def)
qed

lemma verify_order_length:
  "verify_order order n i todo found = Inr flags \<Longrightarrow> length flags = length found"
  by (induction todo arbitrary: i found) (auto simp: Let_def split: if_splits)

lemma verify_order_entries:
  "i + todo \<le> length order \<Longrightarrow>
     (\<exists>flags. verify_order order n i todo found = Inr flags)
       = entries_ok (take todo (drop i order)) n found"
proof (induction todo arbitrary: i found)
  case 0
  then show ?case by simp
next
  case (Suc todo)
  then have i: "i < length order" and r: "Suc i + todo \<le> length order" by simp_all
  from i have t: "take (Suc todo) (drop i order) = order ! i # take todo (drop (Suc i) order)"
    by (simp add: Cons_nth_drop_Suc [symmetric])
  show ?case using Suc.IH [OF r] i by (simp add: t Let_def)
qed

lemma verify_order_overrun:
  "i \<le> length order \<Longrightarrow> length order < i + todo
     \<Longrightarrow> \<exists>e. verify_order order n i todo found = Inl e"
proof (induction todo arbitrary: i found)
  case 0
  then show ?case by simp
next
  case (Suc todo)
  show ?case
  proof (cases "length order \<le> i")
    case True
    then show ?thesis by simp
  next
    case False
    with Suc.prems have "Suc i \<le> length order" "length order < Suc i + todo" by simp_all
    from Suc.IH [OF this] False show ?thesis by (simp add: Let_def)
  qed
qed

lemma verify_order_is_order:
  assumes that: "length order \<le> n"
  shows "(\<exists>flags. verify_order order n 0 n (replicate n False) = Inr flags)
     = (length order = n \<and> is_order order n)"
proof (cases "length order = n")
  case True
  with verify_order_entries [of 0 n order n "replicate n False"]
    entries_ok_is_order [OF True]
  show ?thesis by simp
next
  case False
  with that have "length order < 0 + n" by simp
  from verify_order_overrun [OF _ this, of n "replicate n False"] False
  show ?thesis by auto
qed

lemma resize_length: "length (resize found n) = max (length found) n"
  by (simp add: resize_def)

lemma axes_okI:
  "distinct (exposed maps) \<Longrightarrow> set (exposed maps) = {0..<int k} \<Longrightarrow> axes_ok maps"
  using distinct_range_length [of "exposed maps" k]
  by (simp add: axes_ok_def count_axes_exposed)

lemma axes_ok_count:
  "distinct (exposed maps) \<Longrightarrow> set (exposed maps) = {0..<int k} \<Longrightarrow> count_axes maps = k"
  using distinct_range_length [of "exposed maps" k]
  by (simp add: count_axes_exposed)

lemma axes_ok_find:
  assumes ok: "axes_ok maps" and ax: "axis < count_axes maps"
  shows "\<exists>c a. find_axis maps (int axis) = (int c, int a) \<and> c < length maps
           \<and> a < length (maps ! c) \<and> maps ! c ! a = int axis"
proof -
  from ok ax have "int axis \<in> set (exposed maps)" by (simp add: axes_ok_def)
  then have "int axis \<in> set (concat maps)" by (simp add: exposed_def)
  then show ?thesis by (rule find_axis_found)
qed

lemma exposed_append: "exposed (maps @ [m]) = exposed maps @ filter (\<lambda>w. 0 \<le> w) m"
  by (simp add: exposed_def)

lemma axes_ok_add:
  assumes ok: "axes_ok maps"
  shows "axes_ok (maps @ [map (\<lambda>i. int (count_axes maps + i)) [0..<k]])"
    and "count_axes (maps @ [map (\<lambda>i. int (count_axes maps + i)) [0..<k]]) = count_axes maps + k"
proof -
  let ?n = "count_axes maps"
  let ?m = "map (\<lambda>i. int (?n + i)) [0..<k]"
  have f: "filter (\<lambda>w. 0 \<le> w) ?m = ?m" by (simp add: filter_map comp_def)
  have s: "set ?m = {int ?n..<int (?n + k)}"
  proof
    show "set ?m \<subseteq> {int ?n..<int (?n + k)}" by auto
    show "{int ?n..<int (?n + k)} \<subseteq> set ?m"
    proof
      fix w assume "w \<in> {int ?n..<int (?n + k)}"
      then have "nat w - ?n < k" "w = int (?n + (nat w - ?n))" by auto
      then show "w \<in> set ?m" by (auto simp: image_iff intro!: bexI [of _ "nat w - ?n"])
    qed
  qed
  have d: "distinct ?m" by (simp add: distinct_map inj_on_def)
  from ok have d0: "distinct (exposed maps)" and s0: "set (exposed maps) = {0..<int ?n}"
    by (simp_all add: axes_ok_def)
  have D: "distinct (exposed (maps @ [?m]))"
    unfolding exposed_append f using d d0 s0 s by auto
  have S: "set (exposed (maps @ [?m])) = {0..<int (?n + k)}"
    unfolding exposed_append f using s0 s by auto
  from D S show "axes_ok (maps @ [?m])" by (rule axes_okI)
  from D S show "count_axes (maps @ [?m]) = ?n + k" by (rule axes_ok_count)
qed

lemma axes_ok_remove:
  assumes ok: "axes_ok maps" and ax: "axis < count_axes maps"
    and f: "find_axis maps (int axis) = (coord, caxis)"
  shows "in_block maps coord caxis"
    and "axes_ok (shift_down axis (put_block maps coord caxis (-1)))"
    and "count_axes (shift_down axis (put_block maps coord caxis (-1))) = count_axes maps - 1"
proof -
  let ?n = "count_axes maps"
  let ?v = "int axis"
  from axes_ok_find [OF ok ax] f obtain c a where
    ca: "coord = int c" "caxis = int a" "c < length maps" "a < length (maps ! c)"
      "maps ! c ! a = ?v" by auto
  then show "in_block maps coord caxis" by (simp add: in_block_def)
  from ok have d0: "distinct (exposed maps)" and s0: "set (exposed maps) = {0..<int ?n}"
    by (simp_all add: axes_ok_def)
  have u: "c' = c \<and> a' = a"
    if "c' < length maps" "a' < length (maps ! c')" "maps ! c' ! a' = maps ! c ! a" for c' a'
  proof -
    have "0 \<le> maps ! c' ! a'" using that(3) ca(5) by simp
    from position_unique [OF d0 that(1,2) ca(3,4) that(3) this] show ?thesis .
  qed
  have "put_block (map (map id) maps) (int c) (int a) (-1) = map (map (id(maps ! c ! a := -1))) maps"
    using ca(3,4) u by (rule put_block_map)
  then have pb: "put_block maps coord caxis (-1) = map (map (id(?v := -1))) maps"
    by (simp add: ca(1,2,5))
  define h where "h w = (if w = ?v then -1 else if w > ?v then w - 1 else w)" for w :: int
  have hh: "(\<lambda>w. if w > ?v then w - 1 else w) \<circ> (id(?v := -1)) = h"
    by (rule ext) (simp add: h_def)
  have sd: "shift_down axis (put_block maps coord caxis (-1)) = map (map h) maps"
    unfolding pb shift_down_def by (simp add: hh)
  have hpos: "\<And>w. 0 \<le> h w \<longleftrightarrow> 0 \<le> w \<and> w \<noteq> ?v"
    by (simp add: h_def)
  have filt: "filter (\<lambda>w. 0 \<le> h w) (concat maps) = filter (\<lambda>w. w \<noteq> ?v) (exposed maps)"
    unfolding exposed_def filter_filter hpos ..
  have E: "exposed (map (map h) maps) = map h (filter (\<lambda>w. w \<noteq> ?v) (exposed maps))"
    by (simp add: exposed_map filt)
  have sf: "set (filter (\<lambda>w. w \<noteq> ?v) (exposed maps)) = {0..<int ?n} - {?v}"
  proof (rule set_eqI)
    fix x show "x \<in> set (filter (\<lambda>w. w \<noteq> ?v) (exposed maps)) \<longleftrightarrow> x \<in> {0..<int ?n} - {?v}"
      by (simp add: s0)
  qed
  have inj: "inj_on h ({0..<int ?n} - {?v})"
  proof (rule inj_onI)
    fix x y assume "x \<in> {0..<int ?n} - {?v}" "y \<in> {0..<int ?n} - {?v}" "h x = h y"
    then show "x = y" by (simp add: h_def split: if_splits)
  qed
  have D: "distinct (exposed (map (map h) maps))"
    unfolding E using d0 inj sf by (simp add: distinct_map)
  have im: "h ` ({0..<int ?n} - {?v}) = {0..<int (?n - 1)}"
  proof
    show "h ` ({0..<int ?n} - {?v}) \<subseteq> {0..<int (?n - 1)}"
    proof
      fix y assume "y \<in> h ` ({0..<int ?n} - {?v})"
      then obtain x where "y = h x" "x \<in> {0..<int ?n} - {?v}" by (rule imageE)
      then have x: "y = h x" "0 \<le> x" "x < int ?n" "x \<noteq> ?v" by simp_all
      with ax show "y \<in> {0..<int (?n - 1)}" by (simp add: h_def)
    qed
    show "{0..<int (?n - 1)} \<subseteq> h ` ({0..<int ?n} - {?v})"
    proof
      fix w assume w: "w \<in> {0..<int (?n - 1)}"
      show "w \<in> h ` ({0..<int ?n} - {?v})"
      proof (cases "w < ?v")
        case True
        with w ax have "h w = w" "w \<in> {0..<int ?n} - {?v}" by (simp_all add: h_def)
        then show ?thesis by (metis imageI)
      next
        case False
        with w ax have "h (w + 1) = w" "w + 1 \<in> {0..<int ?n} - {?v}" by (simp_all add: h_def)
        then show ?thesis by (metis imageI)
      qed
    qed
  qed
  have S: "set (exposed (map (map h) maps)) = {0..<int (?n - 1)}"
    unfolding E using sf im by simp
  from D S show "axes_ok (shift_down axis (put_block maps coord caxis (-1)))"
    unfolding sd by (rule axes_okI)
  from D S show "count_axes (shift_down axis (put_block maps coord caxis (-1))) = ?n - 1"
    unfolding sd by (rule axes_ok_count)
qed

lemma relabel_upto_Nil: "relabel_upto [] order = (\<lambda>w. w)"
  by (rule ext) (simp add: relabel_upto_def)

lemma move_axes_relabel:
  assumes d0: "distinct (exposed old)" and sub: "set order \<subseteq> set (exposed old)"
    and d: "distinct order"
  shows "order = moved @ rest \<Longrightarrow>
     move_axes old rest (length moved) (map (map (relabel_upto moved order)) old)
       = Inr (map (map (relabel order)) old)"
proof (induction rest arbitrary: moved)
  case Nil
  then show ?case by simp
next
  case (Cons which rest)
  let ?g = "relabel_upto moved order"
  from Cons.prems sub have "which \<in> set (exposed old)" by auto
  then have "which \<in> set (concat old)" and nn: "0 \<le> which" by (simp_all add: exposed_def)
  from find_axis_found [OF this(1)] obtain c a where
    ca: "find_axis old which = (int c, int a)" "c < length old" "a < length (old ! c)"
      "old ! c ! a = which" by blast
  have u: "c' = c \<and> a' = a"
    if "c' < length old" "a' < length (old ! c')" "old ! c' ! a' = old ! c ! a" for c' a'
  proof -
    have "0 \<le> old ! c' ! a'" using that(3) ca(4) nn by simp
    from position_unique [OF d0 that(1,2) ca(2,3) that(3) this] show ?thesis .
  qed
  have blk: "in_block (map (map ?g) old) (int c) (int a)"
    using ca(2,3) by (simp add: in_block_def)
  have pb: "put_block (map (map ?g) old) (int c) (int a) (int (length moved))
      = map (map (?g(which := int (length moved)))) old"
    using put_block_map [OF ca(2,3) u, of ?g "int (length moved)"] ca(4) by simp
  have idx: "index_of order which = length moved"
    using index_of_nth [OF d, of "length moved"] Cons.prems by simp
  have g': "?g(which := int (length moved)) = relabel_upto (moved @ [which]) order"
    by (rule ext) (simp add: relabel_upto_def idx)
  from Cons.prems have o: "order = (moved @ [which]) @ rest" by simp
  from Cons.IH [OF o] have
    "move_axes old rest (Suc (length moved)) (map (map (relabel_upto (moved @ [which]) order)) old)
       = Inr (map (map (relabel order)) old)" by simp
  then show ?case by (simp add: ca(1) blk pb g')
qed

lemma is_order_sub:
  "axes_ok old \<Longrightarrow> is_order order (count_axes old) \<Longrightarrow> set order = set (exposed old)"
  by (simp add: axes_ok_def is_order_def)

lemma transposed_maps:
  assumes ok: "axes_ok old" and o: "is_order order (count_axes old)"
  shows "move_axes old order 0 old = Inr (map (map (relabel order)) old)"
proof -
  from ok have d0: "distinct (exposed old)" by (simp add: axes_ok_def)
  from o have d: "distinct order" by (simp add: is_order_def)
  from is_order_sub [OF ok o] have sub: "set order \<subseteq> set (exposed old)" by simp
  have "order = [] @ order" by simp
  from move_axes_relabel [OF d0 sub d this] show ?thesis
    by (simp add: relabel_upto_Nil)
qed

lemma axes_ok_relabel:
  assumes ok: "axes_ok old" and o: "is_order order (count_axes old)"
  shows "axes_ok (map (map (relabel order)) old)"
    and "count_axes (map (map (relabel order)) old) = count_axes old"
proof -
  let ?n = "count_axes old"
  let ?g = "relabel order"
  from ok have d0: "distinct (exposed old)" and s0: "set (exposed old) = {0..<int ?n}"
    by (simp_all add: axes_ok_def)
  from o have d: "distinct order" and so: "set order = {0..<int ?n}"
    by (simp_all add: is_order_def)
  have len: "length order = ?n" using o by (rule is_order_length)
  have so': "set (exposed old) = set order" by (simp only: s0 so)
  have gpos: "0 \<le> ?g w \<longleftrightarrow> 0 \<le> w" for w
    using so by (simp add: relabel_upto_def)
  have "filter (\<lambda>w. 0 \<le> ?g w) (concat old) = exposed old"
    by (simp add: gpos exposed_def)
  then have E: "exposed (map (map ?g) old) = map ?g (exposed old)"
    by (simp only: exposed_map)
  have inj: "inj_on ?g (set (exposed old))"
  proof (rule inj_onI)
    fix x y assume xy: "x \<in> set (exposed old)" "y \<in> set (exposed old)" and g: "?g x = ?g y"
    from xy have x: "x \<in> set order" and y: "y \<in> set order"
      by (simp_all only: so')
    from g x y have e: "index_of order x = index_of order y"
      by (simp add: relabel_upto_def)
    have "x = order ! index_of order x" using nth_index_of [OF x] by (rule sym)
    also have "\<dots> = order ! index_of order y" by (simp only: e)
    also have "\<dots> = y" by (rule nth_index_of [OF y])
    finally show "x = y" .
  qed
  have D: "distinct (exposed (map (map ?g) old))"
    unfolding E using d0 inj by (simp add: distinct_map)
  have S: "set (exposed (map (map ?g) old)) = {0..<int ?n}"
  proof (rule set_eqI)
    fix y
    show "y \<in> set (exposed (map (map ?g) old)) \<longleftrightarrow> y \<in> {0..<int ?n}"
    proof
      assume "y \<in> set (exposed (map (map ?g) old))"
      then obtain x where x: "x \<in> set (exposed old)" "y = ?g x"
        unfolding E by auto
      then have "x \<in> set order" by (simp only: so')
      with x(2) index_of_less [of x order] len show "y \<in> {0..<int ?n}"
        by (simp add: relabel_upto_def)
    next
      assume "y \<in> {0..<int ?n}"
      then have y: "0 \<le> y" "nat y < length order" by (auto simp: len)
      then have m: "order ! nat y \<in> set order" by simp
      have "?g (order ! nat y) = y"
        using index_of_nth [OF d y(2)] m y(1) by (simp add: relabel_upto_def)
      moreover from m have "order ! nat y \<in> set (exposed old)" by (simp only: so')
      ultimately show "y \<in> set (exposed (map (map ?g) old))"
        unfolding E by (metis imageI set_map)
    qed
  qed
  from D S show "axes_ok (map (map ?g) old)" by (rule axes_okI)
  from D S show "count_axes (map (map ?g) old) = ?n" by (rule axes_ok_count)
qed

lemma axes_ok_Nil: "axes_ok []"
  by (simp add: axes_ok_def exposed_def count_axes_def)

lemma maps_ok_empty: "maps_ok empty_system"
  by (simp add: maps_ok_def empty_system_def axes_ok_Nil)

lemma maps_ok_add:
  assumes "maps_ok S"
  shows "maps_ok (addCoordinate S coord)"
proof -
  from assms have a: "axes_ok (world_maps_p S)" "axes_ok (pixel_maps_p S)"
    by (simp_all add: maps_ok_def)
  show ?thesis
    using axes_ok_add(1) [OF a(1), of "c_nWorldAxes coord"]
      axes_ok_add(1) [OF a(2), of "c_nPixelAxes coord"]
    by (simp add: maps_ok_def addCoordinate_def Let_def nWorldAxes_def nPixelAxes_def)
qed

lemma maps_ok_foldl_add: "maps_ok S \<Longrightarrow> maps_ok (foldl addCoordinate S cs)"
  by (induction cs arbitrary: S) (simp_all add: maps_ok_add)

lemma maps_ok_removeWorld:
  assumes ok: "maps_ok S" and r: "removeWorldAxis S axis replacement = Inr S'"
  shows "maps_ok S'"
proof -
  from r have ax: "axis < nWorldAxes S"
    by (auto simp: removeWorldAxis_def findWorldAxis_def split: if_splits)
  obtain coord caxis where f: "find_axis (world_maps_p S) (int axis) = (coord, caxis)"
    by (cases "find_axis (world_maps_p S) (int axis)")
  from r ax f have S': "world_maps_p S' = shift_down axis (put_block (world_maps_p S) coord caxis (-1))"
    "pixel_maps_p S' = pixel_maps_p S"
    by (auto simp: removeWorldAxis_def findWorldAxis_def split: if_splits)
  from ok have w: "axes_ok (world_maps_p S)" by (simp add: maps_ok_def)
  from ax have ax': "axis < count_axes (world_maps_p S)" by (simp add: nWorldAxes_def)
  from axes_ok_remove(2) [OF w ax' f] ok S' show ?thesis by (simp add: maps_ok_def)
qed

lemma maps_ok_removePixel:
  assumes ok: "maps_ok S" and r: "removePixelAxis S axis replacement = Inr S'"
  shows "maps_ok S'"
proof -
  from r have ax: "axis < nPixelAxes S"
    by (auto simp: removePixelAxis_def findPixelAxis_def split: if_splits)
  obtain coord caxis where f: "find_axis (pixel_maps_p S) (int axis) = (coord, caxis)"
    by (cases "find_axis (pixel_maps_p S) (int axis)")
  from r ax f have S': "pixel_maps_p S' = shift_down axis (put_block (pixel_maps_p S) coord caxis (-1))"
    "world_maps_p S' = world_maps_p S"
    by (auto simp: removePixelAxis_def findPixelAxis_def split: if_splits)
  from ok have w: "axes_ok (pixel_maps_p S)" by (simp add: maps_ok_def)
  from ax have ax': "axis < count_axes (pixel_maps_p S)" by (simp add: nPixelAxes_def)
  from axes_ok_remove(2) [OF w ax' f] ok S' show ?thesis by (simp add: maps_ok_def)
qed

lemma transpose_sys_maps:
  assumes ok: "maps_ok S" and w: "is_order newWorldOrder (nWorldAxes S)"
    and p: "is_order newPixelOrder (nPixelAxes S)"
    and le: "nWorldAxes S \<le> nPixelAxes S"
  shows "transpose_sys S newWorldOrder newPixelOrder =
     Inr (S\<lparr>world_maps_p := map (map (relabel newWorldOrder)) (world_maps_p S),
            pixel_maps_p := map (map (relabel newPixelOrder)) (pixel_maps_p S)\<rparr>)"
proof -
  from ok have a: "axes_ok (world_maps_p S)" "axes_ok (pixel_maps_p S)"
    by (simp_all add: maps_ok_def)
  from w p have o: "is_order newWorldOrder (count_axes (world_maps_p S))"
    "is_order newPixelOrder (count_axes (pixel_maps_p S))"
    by (simp_all add: nWorldAxes_def nPixelAxes_def)
  have l: "length newWorldOrder = nWorldAxes S" "length newPixelOrder = nPixelAxes S"
    using w p by (simp_all add: is_order_length)
  from verify_order_is_order [of newWorldOrder "nWorldAxes S"] w l
  obtain found where
    v1: "verify_order newWorldOrder (nWorldAxes S) 0 (nWorldAxes S)
           (replicate (nWorldAxes S) False) = Inr found"
    by auto
  from verify_order_length [OF v1] le
  have n: "length (resize found (nPixelAxes S)) = nPixelAxes S"
    by (simp add: resize_length)
  from verify_order_is_order [of newPixelOrder "nPixelAxes S"] p l
  obtain flags where
    v2: "verify_order newPixelOrder (nPixelAxes S) 0 (nPixelAxes S)
           (replicate (nPixelAxes S) False) = Inr flags"
    by auto
  show ?thesis
    by (simp add: transpose_sys_def Let_def l v1 n v2 transposed_maps [OF a(1) o(1)]
        transposed_maps [OF a(2) o(2)])
qed

lemma transpose_sys_fails:
  assumes "nPixelAxes S < nWorldAxes S"
  shows "\<exists>e. transpose_sys S newWorldOrder newPixelOrder = Inl e"
proof (cases "length newWorldOrder = nWorldAxes S \<and> length newPixelOrder = nPixelAxes S")
  case False
  then show ?thesis by (auto simp: transpose_sys_def Let_def)
next
  case True
  then have l: "length newWorldOrder = nWorldAxes S" "length newPixelOrder = nPixelAxes S"
    by simp_all
  show ?thesis
  proof (cases "verify_order newWorldOrder (nWorldAxes S) 0 (nWorldAxes S)
                  (replicate (nWorldAxes S) False)")
    case (Inl e)
    then show ?thesis by (simp add: transpose_sys_def Let_def l)
  next
    case (Inr found)
    from verify_order_length [OF Inr] assms
    have n: "length (resize found (nPixelAxes S)) = nWorldAxes S"
      by (simp add: resize_length)
    from l assms have "length newPixelOrder < 0 + nWorldAxes S" by simp
    from verify_order_overrun [OF _ this]
    obtain e where "verify_order newPixelOrder (nPixelAxes S) 0 (nWorldAxes S)
                      (replicate (nWorldAxes S) False) = Inl e"
      by blast
    then show ?thesis by (simp add: transpose_sys_def Let_def l Inr n)
  qed
qed

lemma transpose_sys_Inr:
  assumes r: "transpose_sys S newWorldOrder newPixelOrder = Inr S'"
  shows "is_order newWorldOrder (nWorldAxes S) \<and> is_order newPixelOrder (nPixelAxes S)
       \<and> nWorldAxes S \<le> nPixelAxes S"
proof -
  from r have l: "length newWorldOrder = nWorldAxes S" "length newPixelOrder = nPixelAxes S"
    by (auto simp: transpose_sys_def Let_def split: if_splits)
  from transpose_sys_fails [of S newWorldOrder newPixelOrder] r
  have le: "nWorldAxes S \<le> nPixelAxes S" by (cases "nPixelAxes S < nWorldAxes S") auto
  from r l obtain found where
    v1: "verify_order newWorldOrder (nWorldAxes S) 0 (nWorldAxes S)
           (replicate (nWorldAxes S) False) = Inr found"
    by (auto simp: transpose_sys_def Let_def split: sum.splits)
  from verify_order_length [OF v1] le
  have n: "length (resize found (nPixelAxes S)) = nPixelAxes S"
    by (simp add: resize_length)
  from r l v1 n obtain flags where
    v2: "verify_order newPixelOrder (nPixelAxes S) 0 (nPixelAxes S)
           (replicate (nPixelAxes S) False) = Inr flags"
    by (auto simp: transpose_sys_def Let_def split: sum.splits)
  from v1 v2 l show ?thesis
    using verify_order_is_order [of newWorldOrder "nWorldAxes S"]
      verify_order_is_order [of newPixelOrder "nPixelAxes S"] le by auto
qed

lemma maps_ok_transpose:
  assumes ok: "maps_ok S" and r: "transpose_sys S newWorldOrder newPixelOrder = Inr S'"
  shows "maps_ok S'"
proof -
  from transpose_sys_Inr [OF r] have w: "is_order newWorldOrder (nWorldAxes S)"
    and p: "is_order newPixelOrder (nPixelAxes S)"
    and le: "nWorldAxes S \<le> nPixelAxes S" by simp_all
  from transpose_sys_maps [OF ok w p le] r
  have S': "S' = S\<lparr>world_maps_p := map (map (relabel newWorldOrder)) (world_maps_p S),
            pixel_maps_p := map (map (relabel newPixelOrder)) (pixel_maps_p S)\<rparr>" by simp
  from ok have a: "axes_ok (world_maps_p S)" "axes_ok (pixel_maps_p S)"
    by (simp_all add: maps_ok_def)
  from w p have o: "is_order newWorldOrder (count_axes (world_maps_p S))"
    "is_order newPixelOrder (count_axes (pixel_maps_p S))"
    by (simp_all add: nWorldAxes_def nPixelAxes_def)
  show ?thesis
    by (simp add: S' maps_ok_def axes_ok_relabel(1) [OF a(1) o(1)] axes_ok_relabel(1) [OF a(2) o(2)])
qed

lemma maps_ok_replace:
  "maps_ok S \<Longrightarrow> replaceCoordinate S newCoordinate which = Inr S' \<Longrightarrow> maps_ok S'"
  by (auto simp: replaceCoordinate_def maps_ok_def split: if_splits)

lemma reachable_maps_ok: "reachable S \<Longrightarrow> maps_ok S"
proof (induction rule: reachable.induct)
  case reach_empty
  show ?case by (rule maps_ok_empty)
next
  case (reach_add S coord)
  then show ?case by (simp add: maps_ok_add)
next
  case (reach_removeWorld S axis replacement S')
  then show ?case by (blast intro: maps_ok_removeWorld)
next
  case (reach_removePixel S axis replacement S')
  then show ?case by (blast intro: maps_ok_removePixel)
next
  case (reach_transpose S newWorldOrder newPixelOrder S')
  then show ?case by (blast intro: maps_ok_transpose)
next
  case (reach_replace S newCoordinate which S')
  then show ?case by (blast intro: maps_ok_replace)
next
  case (reach_restore S)
  show ?case unfolding restoreOriginal_def
    by (rule maps_ok_foldl_add) (rule maps_ok_empty)
qed

section \<open>Claim C3: the mapping invariant\<close>

text \<open>
  Claim C3. In every system reachable from the empty one by \<^verbatim>\<open>addCoordinate\<close>,
  \<^verbatim>\<open>removeWorldAxis\<close>, \<^verbatim>\<open>removePixelAxis\<close>, \<^verbatim>\<open>transpose\<close>,
  \<^verbatim>\<open>replaceCoordinate\<close> and \<^verbatim>\<open>restoreOriginal\<close>, the non-negative entries of the
  world maps are pairwise distinct and are exactly \<open>0, \<dots>, nWorldAxes - 1\<close>, and the
  non-negative entries of the pixel maps are pairwise distinct and are exactly
  \<open>0, \<dots>, nPixelAxes - 1\<close>.
\<close>

theorem mapping_invariant:
  assumes "reachable S"
  shows "distinct (exposed (world_maps_p S))
       \<and> set (exposed (world_maps_p S)) = {0..<int (nWorldAxes S)}
       \<and> distinct (exposed (pixel_maps_p S))
       \<and> set (exposed (pixel_maps_p S)) = {0..<int (nPixelAxes S)}"
  using reachable_maps_ok [OF assms]
  by (simp add: maps_ok_def axes_ok_def nWorldAxes_def nPixelAxes_def)

lemma upt_2: "[0..<2] = [0, Suc 0]" by (simp add: upt_rec)
lemma upt_1: "[0..<1] = [0]" by (simp add: upt_rec)

lemma ex_step1: "addCoordinate (addCoordinate empty_system (linear_coord 2)) (linear_coord 1)
   = \<lparr>coordinates_p = [linear_coord 2, linear_coord 1],
      world_maps_p = [[0, 1], [2]],
      world_tmps_p = [[0, 0], [0]],
      world_replacement_values_p = [[0, 0], [0]],
      pixel_maps_p = [[0, 1], [2]],
      pixel_tmps_p = [[0, 0], [0]],
      pixel_replacement_values_p = [[0, 0], [0]]\<rparr>"
  by (simp add: addCoordinate_def empty_system_def nWorldAxes_def nPixelAxes_def count_axes_def
      Let_def linear_coord_def upt_2 upt_1 numeral_2_eq_2)

lemma ex_step2: "transpose_sys \<lparr>coordinates_p = [linear_coord 2, linear_coord 1],
      world_maps_p = [[0, 1], [2]],
      world_tmps_p = [[0, 0], [0]],
      world_replacement_values_p = [[0, 0], [0]],
      pixel_maps_p = [[0, 1], [2]],
      pixel_tmps_p = [[0, 0], [0]],
      pixel_replacement_values_p = [[0, 0], [0]]\<rparr> [2, 0, 1] [2, 0, 1]
   = Inr \<lparr>coordinates_p = [linear_coord 2, linear_coord 1],
      world_maps_p = [[1, 2], [0]],
      world_tmps_p = [[0, 0], [0]],
      world_replacement_values_p = [[0, 0], [0]],
      pixel_maps_p = [[1, 2], [0]],
      pixel_tmps_p = [[0, 0], [0]],
      pixel_replacement_values_p = [[0, 0], [0]]\<rparr>"
  by (simp add: transpose_sys_def nWorldAxes_def nPixelAxes_def count_axes_def Let_def
      resize_def find_axis_def in_block_def put_block_def eval_nat_numeral)

lemma ex_step3: "removeWorldAxis \<lparr>coordinates_p = [linear_coord 2, linear_coord 1],
      world_maps_p = [[1, 2], [0]],
      world_tmps_p = [[0, 0], [0]],
      world_replacement_values_p = [[0, 0], [0]],
      pixel_maps_p = [[1, 2], [0]],
      pixel_tmps_p = [[0, 0], [0]],
      pixel_replacement_values_p = [[0, 0], [0]]\<rparr> 1 5 = Inr ex_system"
  by (simp add: removeWorldAxis_def findWorldAxis_def nWorldAxes_def count_axes_def
      find_axis_def in_block_def put_block_def shift_down_def ex_system_def)

lemma ex_reachable: "reachable ex_system"
proof -
  have "reachable (addCoordinate (addCoordinate empty_system (linear_coord 2)) (linear_coord 1))"
    by (intro reachable.intros)
  then show ?thesis
    unfolding ex_step1
    by (blast intro: reach_transpose [OF _ ex_step2] reach_removeWorld [OF _ ex_step3])
qed

theorem mapping_invariant_witness:
  "reachable ex_system
   \<and> distinct (exposed (world_maps_p ex_system))
   \<and> set (exposed (world_maps_p ex_system)) = {0..<int (nWorldAxes ex_system)}
   \<and> distinct (exposed (pixel_maps_p ex_system))
   \<and> set (exposed (pixel_maps_p ex_system)) = {0..<int (nPixelAxes ex_system)}"
  using mapping_invariant [OF ex_reachable] ex_reachable by simp

section \<open>Transposing back and forth\<close>

lemma inverse_order_nth:
  "inverse_order order bk \<Longrightarrow> i < length order \<Longrightarrow> bk ! nat (order ! i) = int i"
  by (simp add: inverse_order_def list_all_iff)

lemma inverse_order_index:
  assumes o: "is_order order n" and i: "inverse_order order bk" and w: "w \<in> set order"
  shows "bk ! nat w = int (index_of order w)"
  using inverse_order_nth [OF i index_of_less [OF w]] nth_index_of [OF w] by simp

lemma inverse_is_order:
  assumes o: "is_order order n" and i: "inverse_order order bk"
  shows "is_order bk n"
proof -
  from o have d: "distinct order" and so: "set order = {0..<int n}"
    by (simp_all add: is_order_def)
  have len: "length order = n" using o by (rule is_order_length)
  have leni: "length bk = n" using i len by (simp add: inverse_order_def)
  have nth: "bk ! j = int (index_of order (int j))" if "j < n" for j
  proof -
    from that so have "int j \<in> set order" by simp
    from inverse_order_index [OF o i this] show ?thesis by simp
  qed
  have eq: "bk = map (\<lambda>j. int (index_of order (int j))) [0..<n]"
    by (rule nth_equalityI) (simp_all add: leni nth)
  have inj: "inj_on (\<lambda>j. int (index_of order (int j))) (set [0..<n])"
  proof (rule inj_onI)
    fix x y assume xy: "x \<in> set [0..<n]" "y \<in> set [0..<n]"
      and e: "int (index_of order (int x)) = int (index_of order (int y))"
    from xy so have m: "int x \<in> set order" "int y \<in> set order" by simp_all
    have "int x = order ! index_of order (int x)" using nth_index_of [OF m(1)] by (rule sym)
    also have "\<dots> = order ! index_of order (int y)" using e by simp
    also have "\<dots> = int y" by (rule nth_index_of [OF m(2)])
    finally show "x = y" by simp
  qed
  have D: "distinct bk" unfolding eq using inj by (simp add: distinct_map)
  have sub: "set bk \<subseteq> {0..<int n}"
  proof
    fix y assume "y \<in> set bk"
    then obtain j where j: "j < n" "y = int (index_of order (int j))"
      unfolding eq by auto
    from j(1) so have "int j \<in> set order" by simp
    from index_of_less [OF this] j(2) len show "y \<in> {0..<int n}" by simp
  qed
  have "card (set bk) = n" using D leni by (simp add: distinct_card)
  then have "card (set bk) = card {0..<int n}" by simp
  with sub have "set bk = {0..<int n}" by (intro card_subset_eq) auto
  with D show ?thesis by (simp add: is_order_def)
qed

lemma relabel_inverse:
  assumes o: "is_order order n" and i: "inverse_order order bk"
    and w: "w < 0 \<or> w \<in> {0..<int n}"
  shows "relabel bk (relabel order w) = w"
proof (cases "w < 0")
  case True
  from o have "set order = {0..<int n}" by (simp add: is_order_def)
  moreover from inverse_is_order [OF o i] have "set bk = {0..<int n}" by (simp add: is_order_def)
  ultimately show ?thesis using True by (simp add: relabel_upto_def)
next
  case False
  from o have d: "distinct order" and so: "set order = {0..<int n}"
    by (simp_all add: is_order_def)
  from inverse_is_order [OF o i] have di: "distinct bk" and si: "set bk = {0..<int n}"
    by (simp_all add: is_order_def)
  have leni: "length bk = n" using inverse_is_order [OF o i] by (rule is_order_length)
  from False w have wm: "w \<in> set order" and w0: "0 \<le> w" and wn: "nat w < n"
    by (auto simp: so)
  have r1: "relabel order w = int (index_of order w)" using wm by (simp add: relabel_upto_def)
  have e: "bk ! nat w = int (index_of order w)" by (rule inverse_order_index [OF o i wm])
  have mem: "int (index_of order w) \<in> set bk"
    using nth_mem [of "nat w" bk] wn leni e by simp
  have "index_of bk (bk ! nat w) = nat w"
    using index_of_nth [OF di, of "nat w"] wn leni by simp
  then have "index_of bk (int (index_of order w)) = nat w" by (simp only: e)
  then have "relabel bk (int (index_of order w)) = w"
    using mem w0 by (simp add: relabel_upto_def)
  then show ?thesis by (simp only: r1)
qed

lemma entries_range:
  assumes "axes_ok maps" and "w \<in> set (concat maps)"
  shows "w < 0 \<or> w \<in> {0..<int (count_axes maps)}"
proof (cases "w < 0")
  case True
  then show ?thesis by simp
next
  case False
  with assms(2) have "w \<in> set (exposed maps)" by (simp add: exposed_def)
  moreover from assms(1) have "set (exposed maps) = {0..<int (count_axes maps)}"
    by (simp add: axes_ok_def)
  ultimately show ?thesis by blast
qed

lemma relabel_round_trip:
  assumes ok: "axes_ok maps" and o: "is_order order (count_axes maps)"
    and i: "inverse_order order bk"
  shows "map (map (relabel bk)) (map (map (relabel order)) maps) = maps"
proof -
  have "map (map (relabel bk \<circ> relabel order)) maps = map (map id) maps"
  proof (intro map_cong refl)
    fix m w assume "m \<in> set maps" "w \<in> set m"
    then have "w \<in> set (concat maps)" by auto
    from relabel_inverse [OF o i entries_range [OF ok this]]
    show "(relabel bk \<circ> relabel order) w = id w" by simp
  qed
  then show ?thesis by simp
qed

lemma transpose_round_trip:
  assumes ok: "maps_ok S"
    and w: "is_order newWorldOrder (nWorldAxes S)" and p: "is_order newPixelOrder (nPixelAxes S)"
    and wi: "inverse_order newWorldOrder worldBack" and pi: "inverse_order newPixelOrder pixelBack"
    and le: "nWorldAxes S \<le> nPixelAxes S"
  shows "\<exists>S'. transpose_sys S newWorldOrder newPixelOrder = Inr S'
            \<and> transpose_sys S' worldBack pixelBack = Inr S"
proof -
  let ?S' = "S\<lparr>world_maps_p := map (map (relabel newWorldOrder)) (world_maps_p S),
            pixel_maps_p := map (map (relabel newPixelOrder)) (pixel_maps_p S)\<rparr>"
  have t1: "transpose_sys S newWorldOrder newPixelOrder = Inr ?S'"
    by (rule transpose_sys_maps [OF ok w p le])
  have ok': "maps_ok ?S'" by (rule maps_ok_transpose [OF ok t1])
  from ok have a: "axes_ok (world_maps_p S)" "axes_ok (pixel_maps_p S)"
    by (simp_all add: maps_ok_def)
  from w p have o: "is_order newWorldOrder (count_axes (world_maps_p S))"
    "is_order newPixelOrder (count_axes (pixel_maps_p S))"
    by (simp_all add: nWorldAxes_def nPixelAxes_def)
  have n: "nWorldAxes ?S' = nWorldAxes S" "nPixelAxes ?S' = nPixelAxes S"
    using axes_ok_relabel(2) [OF a(1) o(1)] axes_ok_relabel(2) [OF a(2) o(2)]
    by (simp_all add: nWorldAxes_def nPixelAxes_def)
  from le have le': "nWorldAxes ?S' \<le> nPixelAxes ?S'" unfolding n .
  have w': "is_order worldBack (nWorldAxes ?S')" unfolding n by (rule inverse_is_order [OF w wi])
  have p': "is_order pixelBack (nPixelAxes ?S')" unfolding n by (rule inverse_is_order [OF p pi])
  have "transpose_sys ?S' worldBack pixelBack = Inr S"
    unfolding transpose_sys_maps [OF ok' w' p' le']
    using relabel_round_trip [OF a(1) o(1) wi] relabel_round_trip [OF a(2) o(2) pi]
    by simp
  with t1 show ?thesis by blast
qed

text \<open>
  With at least as many pixel axes as world axes the two calls succeed and give back the
  system itself, hence every vector and the matrix read from it.
\<close>

lemma transpose_restores:
  assumes "reachable S"
    and "is_order newWorldOrder (nWorldAxes S)" and "is_order newPixelOrder (nPixelAxes S)"
    and "inverse_order newWorldOrder worldBack" and "inverse_order newPixelOrder pixelBack"
    and "nWorldAxes S \<le> nPixelAxes S"
  shows "\<exists>S' S''. transpose_sys S newWorldOrder newPixelOrder = Inr S'
           \<and> transpose_sys S' worldBack pixelBack = Inr S''
           \<and> referenceValue S'' = referenceValue S
           \<and> referencePixel S'' = referencePixel S
           \<and> increment S'' = increment S
           \<and> linearTransform S'' = linearTransform S
           \<and> worldAxisNames S'' = worldAxisNames S
           \<and> worldAxisUnits S'' = worldAxisUnits S"
proof -
  from transpose_round_trip [OF reachable_maps_ok [OF assms(1)] assms(2-6)]
  obtain S' where "transpose_sys S newWorldOrder newPixelOrder = Inr S'"
    "transpose_sys S' worldBack pixelBack = Inr S" by blast
  then show ?thesis by blast
qed

section \<open>Claim C8: transpose followed by the inverse transpose\<close>

text \<open>
  Claim C8. For every system and every permutation of its exposed world axes and of its
  exposed pixel axes, \<^verbatim>\<open>transpose\<close> with the two orders followed by \<^verbatim>\<open>transpose\<close> with
  their inverses leaves the reference value, the reference pixel, the increment, the linear
  transform, the world axis names and the world axis units as they were.

  The code does not get that far on a system with fewer pixel axes than world axes. The
  block of flags that verified the world order is kept for the pixel order;
  \<^verbatim>\<open>found.resize(np)\<close> does not make it shorter, and the second loop runs over all the
  flags, so after the \<open>np\<close> entries of the pixel order it reads an entry that is not there.
  The system below is a linear coordinate with two axes after \<^verbatim>\<open>removePixelAxis(1)\<close>:
  \<^verbatim>\<open>transpose\<close> refuses the exchange of its two world axes, and even the two identity
  orders, although each is a permutation of the axes it orders. (Whatever the read past the
  end yields in C++, the assertion that follows it fails: the value is either outside
  \<open>0, \<dots>, np - 1\<close> or the number of a flag already set.)
\<close>

theorem transpose_rejects_fewer_pixel_axes:
  "removePixelAxis (addCoordinate empty_system (linear_coord 2)) 1 0 = Inr fewer_pixel
   \<and> nWorldAxes fewer_pixel = 2 \<and> nPixelAxes fewer_pixel = 1
   \<and> is_order [1, 0] (nWorldAxes fewer_pixel) \<and> is_order [0] (nPixelAxes fewer_pixel)
   \<and> transpose_sys fewer_pixel [1, 0] [0] = Inl IndexOutOfRange
   \<and> is_order [0, 1] (nWorldAxes fewer_pixel)
   \<and> transpose_sys fewer_pixel [0, 1] [0] = Inl IndexOutOfRange"
proof -
  have s: "removePixelAxis (addCoordinate empty_system (linear_coord 2)) 1 0 = Inr fewer_pixel"
    by (simp add: addCoordinate_def empty_system_def nWorldAxes_def nPixelAxes_def
        count_axes_def Let_def linear_coord_def upt_2 removePixelAxis_def findPixelAxis_def
        find_axis_def in_block_def put_block_def shift_down_def fewer_pixel_def
        numeral_2_eq_2)
  have n: "nWorldAxes fewer_pixel = 2" "nPixelAxes fewer_pixel = 1"
    by (simp_all add: nWorldAxes_def nPixelAxes_def count_axes_def fewer_pixel_def)
  have o: "is_order [1, 0] 2" "is_order [0] 1" "is_order [0, 1] 2"
    by (auto simp: is_order_def)
  have t: "transpose_sys fewer_pixel [1, 0] [0] = Inl IndexOutOfRange"
    "transpose_sys fewer_pixel [0, 1] [0] = Inl IndexOutOfRange"
    by (simp_all add: transpose_sys_def Let_def n resize_def eval_nat_numeral)
  from s n o t show ?thesis by simp
qed

section \<open>Claim C4: setLinearTransform\<close>

lemma one_linear_eq:
  "one_linear = \<lparr>coordinates_p = [linear_coord 1], world_maps_p = [[0]], world_tmps_p = [[0]],
      world_replacement_values_p = [[0]], pixel_maps_p = [[0]], pixel_tmps_p = [[0]],
      pixel_replacement_values_p = [[0]]\<rparr>"
  by (simp add: one_linear_def addCoordinate_def empty_system_def nWorldAxes_def
      nPixelAxes_def count_axes_def Let_def linear_coord_def upt_1)

lemma setLinearTransform_k_stuck:
  "j < ncol \<Longrightarrow> \<exists>e. setLinearTransform_k j ncol wmap pmap xform k tmp = Inl e"
proof (induction j ncol wmap pmap xform k tmp rule: setLinearTransform_k.induct)
  case (1 j ncol wmap pmap xform k tmp)
  show ?case
  proof (cases "j < length wmap \<and> k < length pmap")
    case False
    with "1.prems" show ?thesis by (subst setLinearTransform_k.simps) auto
  next
    case True
    note inr = this
    show ?thesis
    proof (cases "0 \<le> wmap ! j \<and> 0 \<le> pmap ! k")
      case False
      with "1.IH"(2) [OF "1.prems" inr refl refl False "1.prems"] "1.prems" inr
      show ?thesis by (subst setLinearTransform_k.simps) (auto simp: Let_def)
    next
      case True
      note pos = this
      show ?thesis
      proof (cases "matrix_entry xform (wmap ! j) (pmap ! k)")
        case (Inl e)
        with "1.prems" inr pos show ?thesis
          by (subst setLinearTransform_k.simps) (auto simp: Let_def)
      next
        case (Inr v)
        show ?thesis
        proof (cases "j < length tmp \<and> k < length (tmp ! j)")
          case False
          with "1.prems" inr pos Inr show ?thesis
            by (subst setLinearTransform_k.simps) (auto simp: Let_def)
        next
          case True
          from "1.IH"(1) [OF "1.prems" inr refl refl pos Inr True "1.prems"]
          obtain e where "setLinearTransform_k j ncol wmap pmap xform (Suc k)
              (tmp[j := (tmp ! j)[k := v]]) = Inl e" by blast
          with "1.prems" inr pos Inr True show ?thesis
            by (subst setLinearTransform_k.simps) (auto simp: Let_def)
        qed
      qed
    qed
  qed
qed

text \<open>
  Claim C4 says that \<^verbatim>\<open>setLinearTransform\<close> stores \<open>X(WM[i][j], PM[i][k])\<close> in every
  exposed entry \<open>(j, k)\<close> of every sub-coordinate, calls every setter and returns the
  conjunction of their flags. The code does not: on the system of one identity linear
  coordinate with one world and one pixel axis, and the 1 by 1 matrix \<open>X = (2)\<close>, the
  inner loop never meets its bound and runs off the pixel map, so that no setter is called
  and no flag is returned.
\<close>

theorem setLinearTransform_runs_off:
  "nCoordinates one_linear = 1
   \<and> nWorldAxes one_linear = 1 \<and> nPixelAxes one_linear = 1
   \<and> setLinearTransform one_linear [[2]] = Inl IndexOutOfRange"
  by (simp add: one_linear_eq setLinearTransform_def nCoordinates_def nWorldAxes_def
      nPixelAxes_def count_axes_def upt_1 linear_coord_def ncolumn_def Let_def
      matrix_entry_def with_coordinates_def setLinearTransform_k.simps)

section \<open>Claim C1: toWorld and toPixel of the composite\<close>

lemma two_coords_eq:
  "two_coords = \<lparr>coordinates_p = [failing_coord, linear_coord 1],
      world_maps_p = [[0], [1]], world_tmps_p = [[0], [0]],
      world_replacement_values_p = [[0], [0]],
      pixel_maps_p = [[0], [1]], pixel_tmps_p = [[0], [0]],
      pixel_replacement_values_p = [[0], [0]]\<rparr>"
  by (simp add: two_coords_def addCoordinate_def empty_system_def nWorldAxes_def
      nPixelAxes_def count_axes_def Let_def linear_coord_def failing_coord_def upt_1)

lemma upt_0_2: "[0..<2] = [0, 1]"
  by (simp add: upt_rec)

text \<open>
  Claim C1 says that \<^verbatim>\<open>toWorld\<close> calls the conversion of every sub-coordinate, also
  after an earlier one has failed, and writes the exposed outputs of every sub-coordinate
  whose conversion succeeds; \<^verbatim>\<open>toPixel\<close> likewise. The code stops calling: in the
  system of a failing coordinate followed by an identity linear coordinate, with world
  vector \<open>(9, 9)\<close> and pixel \<open>(3, 4)\<close>, only coordinate 0 is called. Coordinate 1, whose
  conversion of \<open>4\<close> succeeds with \<open>4\<close>, is never called, and the caller's entry for it
  receives the old content \<open>0\<close> of its temporary. \<^verbatim>\<open>toPixel\<close> does the same.
\<close>

theorem toWorld_skips_after_failure:
  "toWorld two_coords [9, 9] [3, 4] =
     Inr (False, [0, 0], two_coords\<lparr>pixel_tmps_p := [[3], [4]]\<rparr>, [0])
   \<and> c_toWorld (linear_coord 1) [0] [4] = (None, [4])
   \<and> toPixel two_coords [9, 9] [3, 4] =
     Inr (False, [0, 0], two_coords\<lparr>world_tmps_p := [[3], [4]]\<rparr>, [0])
   \<and> c_toPixel (linear_coord 1) [0] [4] = (None, [4])"
  by (simp add: toWorld_def toPixel_def two_coords_eq has_coordinate_def upt_0_2
      failing_coord_def linear_coord_def)

section \<open>Claim C5: near of two systems\<close>

lemma pair_eq:
  "pair_a = \<lparr>coordinates_p = [linear_coord 1, linear_coord 1],
      world_maps_p = [[0], [1]], world_tmps_p = [[0], [0]],
      world_replacement_values_p = [[0], [0]],
      pixel_maps_p = [[0], [1]], pixel_tmps_p = [[0], [0]],
      pixel_replacement_values_p = [[0], [0]]\<rparr>"
  "pair_b = \<lparr>coordinates_p = [linear_coord 1, shifted_coord],
      world_maps_p = [[0], [1]], world_tmps_p = [[0], [0]],
      world_replacement_values_p = [[0], [0]],
      pixel_maps_p = [[0], [1]], pixel_tmps_p = [[0], [0]],
      pixel_replacement_values_p = [[0], [0]]\<rparr>"
  by (simp_all add: pair_a_def pair_b_def addCoordinate_def empty_system_def nWorldAxes_def
      nPixelAxes_def count_axes_def Let_def linear_coord_def shifted_coord_def upt_1)

text \<open>
  Claim C5 says that \<^verbatim>\<open>near\<close> returns true only if the comparison of the
  sub-coordinates holds for every index with an unremoved world axis. The code returns the
  result of the first such index: the two systems below have the same maps and kinds,
  coordinate 1 has an exposed world axis and its comparison fails, and \<^verbatim>\<open>near\<close> is
  true.
\<close>

theorem near_stops_at_first_coordinate:
  "nCoordinates pair_a = nCoordinates pair_b
   \<and> world_maps_p pair_a = world_maps_p pair_b \<and> pixel_maps_p pair_a = pixel_maps_p pair_b
   \<and> map c_type (coordinates_p pair_a) = map c_type (coordinates_p pair_b)
   \<and> worldAxes pair_a 1 = Inr [1]
   \<and> \<not> descriptor_near (coordinates_p pair_a ! 1) (coordinates_p pair_b ! 1) [] (1 / 1000000)
   \<and> near descriptor_near pair_a pair_b [] (1 / 1000000) = Inr True"
  by (simp add: near_def pair_eq nCoordinates_def nWorldAxes_def nPixelAxes_def count_axes_def
      upt_0_2 worldAxes_def pixelAxes_def findWorldAxis_def findPixelAxis_def find_axis_def
      descriptor_near_def near_values_def linear_coord_def shifted_coord_def)

section \<open>Claim C9: the spectral axis in toFITSHeader\<close>

lemma spectral_systems:
  "spectral_at_0 = \<lparr>coordinates_p = [spectral_coord], world_maps_p = [[0]],
      world_tmps_p = [[0]], world_replacement_values_p = [[0]], pixel_maps_p = [[0]],
      pixel_tmps_p = [[0]], pixel_replacement_values_p = [[0]]\<rparr>"
  "spectral_at_1 = \<lparr>coordinates_p = [linear_coord 1, spectral_coord],
      world_maps_p = [[0], [1]], world_tmps_p = [[0], [0]],
      world_replacement_values_p = [[0], [0]], pixel_maps_p = [[0], [1]],
      pixel_tmps_p = [[0], [0]], pixel_replacement_values_p = [[0], [0]]\<rparr>"
  "spectral_at_2 = \<lparr>coordinates_p = [linear_coord 2, spectral_coord],
      world_maps_p = [[0, 1], [2]], world_tmps_p = [[0, 0], [0]],
      world_replacement_values_p = [[0, 0], [0]], pixel_maps_p = [[0, 1], [2]],
      pixel_tmps_p = [[0, 0], [0]], pixel_replacement_values_p = [[0, 0], [0]]\<rparr>"
  by (simp_all add: spectral_at_0_def spectral_at_1_def spectral_at_2_def addCoordinate_def
      empty_system_def nWorldAxes_def nPixelAxes_def count_axes_def Let_def linear_coord_def
      spectral_coord_def upt_1 upt_2 numeral_2_eq_2)

lemma upt_0_3: "[0..<3] = [0, 1, 2]"
  by (simp add: upt_rec)

lemma spectral_types:
  "c_type spectral_coord = SPECTRAL" "c_type (linear_coord n) = LINEAR"
  by (simp_all add: spectral_coord_def linear_coord_def)

text \<open>
  Claim C9 says that \<^verbatim>\<open>toFITSHeader\<close> hands the spectral axis to the FITS routine of
  the SpectralCoordinate wherever that axis stands among the world axes, positions 0 and 1
  included. The code makes the call under \<^verbatim>\<open>if (specAxis > 1)\<close>: with the spectral
  axis at world axis 0, or at world axis 1, the header is written and true is returned
  without the call; at world axis 2 the call is made.
\<close>

theorem toFITSHeader_skips_spectral:
  "find_special_axes spectral_at_0 =
     Inr \<lparr>longAxis = -1, latAxis = -1, specAxis = 0, stokesAxis = -1\<rparr>
   \<and> toFITSHeader_spectral spectral_at_0 [] (CHR ''c'') = Inr (True, None)
   \<and> find_special_axes spectral_at_1 =
     Inr \<lparr>longAxis = -1, latAxis = -1, specAxis = 1, stokesAxis = -1\<rparr>
   \<and> toFITSHeader_spectral spectral_at_1 [] (CHR ''c'') = Inr (True, None)
   \<and> toFITSHeader_spectral spectral_at_2 [] (CHR ''c'') = Inr (True, Some (1, 2))"
  by (simp add: toFITSHeader_spectral_def find_special_axes_def findCoordinate_def
      header_collision_def spectral_systems spectral_types nWorldAxes_def count_axes_def
      findWorldAxis_def find_axis_def upt_1 upt_0_2 upt_0_3)

section \<open>Claim C7: change of the world axis units\<close>

lemma scale_ratio_Some:
  "scale_ratio parse old new = Some f \<longleftrightarrow>
     (\<exists>d s s'. parse old = Some (d, s) \<and> parse new = Some (d, s') \<and> f = s / s')"
  by (auto simp: scale_ratio_def split: option.splits prod.splits)

lemma scale_loop_ok:
  "(\<And>i. i \<in> set idx \<Longrightarrow> i < length factor
        \<and> scale_ratio parse (oldUnits ! i) (units ! i) \<noteq> None) \<Longrightarrow>
   \<exists>factor'. find_scale_factor_loop parse units oldUnits idx factor = Inr factor'
     \<and> length factor' = length factor
     \<and> (\<forall>i < length factor. factor' ! i =
           (if i \<in> set idx then the (scale_ratio parse (oldUnits ! i) (units ! i))
            else factor ! i))"
proof (induction idx arbitrary: factor)
  case Nil
  then show ?case by simp
next
  case (Cons k idx)
  from Cons.prems [of k] have k: "k < length factor"
    and "scale_ratio parse (oldUnits ! k) (units ! k) \<noteq> None" by simp_all
  then obtain f where f: "scale_ratio parse (oldUnits ! k) (units ! k) = Some f" by blast
  then obtain d s s' where p: "parse (oldUnits ! k) = Some (d, s)"
    "parse (units ! k) = Some (d, s')" "f = s / s'"
    unfolding scale_ratio_Some by blast
  have "\<And>i. i \<in> set idx \<Longrightarrow> i < length (factor[k := f])
        \<and> scale_ratio parse (oldUnits ! i) (units ! i) \<noteq> None"
    using Cons.prems by simp
  from Cons.IH [OF this] obtain factor' where
    r: "find_scale_factor_loop parse units oldUnits idx (factor[k := f]) = Inr factor'"
      "length factor' = length factor"
      "\<forall>i < length factor. factor' ! i =
           (if i \<in> set idx then the (scale_ratio parse (oldUnits ! i) (units ! i))
            else factor[k := f] ! i)"
    by auto
  have step: "find_scale_factor_loop parse units oldUnits (k # idx) factor = Inr factor'"
    using p r(1) by simp
  have vals: "\<forall>i < length factor. factor' ! i =
           (if i \<in> set (k # idx) then the (scale_ratio parse (oldUnits ! i) (units ! i))
            else factor ! i)"
  proof (intro allI impI)
    fix i assume i: "i < length factor"
    show "factor' ! i = (if i \<in> set (k # idx)
            then the (scale_ratio parse (oldUnits ! i) (units ! i)) else factor ! i)"
      using r(3) i k f by (cases "i = k") auto
  qed
  from step r(2) vals show ?case by blast
qed

lemma scale_loop_fails:
  "\<exists>i \<in> set idx. scale_ratio parse (oldUnits ! i) (units ! i) = None \<Longrightarrow>
   \<exists>msg. find_scale_factor_loop parse units oldUnits idx factor = Inl msg"
proof (induction idx arbitrary: factor)
  case Nil
  then show ?case by simp
next
  case (Cons k idx)
  show ?case
  proof (cases "scale_ratio parse (oldUnits ! k) (units ! k)")
    case None
    then show ?thesis
      by (auto simp: scale_ratio_def split: option.splits prod.splits if_splits)
  next
    case (Some f)
    then obtain d s s' where p: "parse (oldUnits ! k) = Some (d, s)"
      "parse (units ! k) = Some (d, s')" unfolding scale_ratio_Some by blast
    from Some Cons.prems have "\<exists>i \<in> set idx. scale_ratio parse (oldUnits ! i) (units ! i) = None"
      by auto
    from Cons.IH [OF this, of "factor[k := s / s']"] p show ?thesis by simp
  qed
qed

lemma find_scale_factor_ok:
  assumes len: "length oldUnits = length units"
    and all: "\<forall>i < length units. scale_ratio parse (oldUnits ! i) (units ! i) \<noteq> None"
  shows "find_scale_factor parse units oldUnits =
     Inr (map (\<lambda>i. the (scale_ratio parse (oldUnits ! i) (units ! i))) [0..<length units])"
proof -
  let ?n = "length units"
  have "\<And>i. i \<in> set [0..<?n] \<Longrightarrow> i < length (replicate ?n (0::real))
        \<and> scale_ratio parse (oldUnits ! i) (units ! i) \<noteq> None"
    using all by simp
  from scale_loop_ok [of "[0..<?n]" "replicate ?n 0" parse oldUnits units, OF this]
  obtain factor' where
    r: "find_scale_factor_loop parse units oldUnits [0..<?n] (replicate ?n 0) = Inr factor'"
      "length factor' = ?n"
      "\<forall>i < ?n. factor' ! i = the (scale_ratio parse (oldUnits ! i) (units ! i))"
    by auto
  have "factor' = map (\<lambda>i. the (scale_ratio parse (oldUnits ! i) (units ! i))) [0..<?n]"
    by (rule nth_equalityI) (simp_all add: r(2,3))
  with r(1) len show ?thesis by (simp add: find_scale_factor_def)
qed

lemma find_scale_factor_fails:
  assumes len: "length oldUnits = length units"
    and ex: "\<exists>i < length units. scale_ratio parse (oldUnits ! i) (units ! i) = None"
  shows "\<exists>msg. find_scale_factor parse units oldUnits = Inl msg"
proof -
  from ex have "\<exists>i \<in> set [0..<length units]. scale_ratio parse (oldUnits ! i) (units ! i) = None"
    by auto
  from scale_loop_fails [OF this] len show ?thesis by (simp add: find_scale_factor_def)
qed

lemma times_vec_nth:
  "length xs = n \<Longrightarrow> length ys = n \<Longrightarrow>
     times_vec xs ys = Inr (map (\<lambda>i. xs ! i * ys ! i) [0..<n])"
  unfolding times_vec_def
  by (auto intro!: nth_equalityI)

text \<open>
  Claim C7, as amended. For a coordinate whose vectors have its number of world axes and a
  unit vector \<open>units\<close> of that length, \<^verbatim>\<open>Coordinate::setWorldAxisUnits\<close> returns true
  and changes nothing when \<open>units\<close> are the current units; otherwise, when every pair of
  old and new unit parses and has one dimension, it returns true and multiplies the
  increment and the reference value, component by component, by the old scale over the new
  one, and leaves the units vector itself to the derived class; when some unit is unknown
  or some pair has two dimensions it returns false and only sets the error message.
\<close>

theorem setWorldAxisUnits_scales:
  assumes ok: "coord_ok c" and len: "length units = c_nWorldAxes c"
  shows "(units = c_worldAxisUnits c \<longrightarrow> setWorldAxisUnits parse c units = Inr (True, c))
    \<and> (units \<noteq> c_worldAxisUnits c
        \<and> (\<forall>i < c_nWorldAxes c. scale_ratio parse (c_worldAxisUnits c ! i) (units ! i) \<noteq> None)
       \<longrightarrow> setWorldAxisUnits parse c units =
             Inr (True,
               c\<lparr>c_increment :=
                    map (\<lambda>i. c_increment c ! i
                          * the (scale_ratio parse (c_worldAxisUnits c ! i) (units ! i)))
                      [0..<c_nWorldAxes c],
                  c_referenceValue :=
                    map (\<lambda>i. c_referenceValue c ! i
                          * the (scale_ratio parse (c_worldAxisUnits c ! i) (units ! i)))
                      [0..<c_nWorldAxes c]\<rparr>))
    \<and> (units \<noteq> c_worldAxisUnits c
        \<and> (\<exists>i < c_nWorldAxes c. scale_ratio parse (c_worldAxisUnits c ! i) (units ! i) = None)
       \<longrightarrow> (\<exists>msg. setWorldAxisUnits parse c units = Inr (False, c\<lparr>error_p := msg\<rparr>)))"
proof (intro conjI impI)
  assume "units = c_worldAxisUnits c"
  with len show "setWorldAxisUnits parse c units = Inr (True, c)"
    by (simp add: setWorldAxisUnits_def)
next
  let ?n = "c_nWorldAxes c"
  let ?f = "\<lambda>i. the (scale_ratio parse (c_worldAxisUnits c ! i) (units ! i))"
  assume a: "units \<noteq> c_worldAxisUnits c
     \<and> (\<forall>i < ?n. scale_ratio parse (c_worldAxisUnits c ! i) (units ! i) \<noteq> None)"
  from ok have l: "length (c_worldAxisUnits c) = ?n" "length (c_increment c) = ?n"
    "length (c_referenceValue c) = ?n" by (simp_all add: coord_ok_def)
  have fs: "find_scale_factor parse units (c_worldAxisUnits c) = Inr (map ?f [0..<?n])"
    using find_scale_factor_ok [of "c_worldAxisUnits c" units parse] a l(1) len by simp
  have t1: "times_vec (c_increment c) (map ?f [0..<?n])
      = Inr (map (\<lambda>i. c_increment c ! i * ?f i) [0..<?n])"
    using times_vec_nth [of "c_increment c" ?n "map ?f [0..<?n]"] l(2) by simp
  have t2: "times_vec (c_referenceValue c) (map ?f [0..<?n])
      = Inr (map (\<lambda>i. c_referenceValue c ! i * ?f i) [0..<?n])"
    using times_vec_nth [of "c_referenceValue c" ?n "map ?f [0..<?n]"] l(3) by simp
  show "setWorldAxisUnits parse c units =
     Inr (True, c\<lparr>c_increment := map (\<lambda>i. c_increment c ! i * ?f i) [0..<?n],
                  c_referenceValue := map (\<lambda>i. c_referenceValue c ! i * ?f i) [0..<?n]\<rparr>)"
  proof -
    from a have ne: "c_worldAxisUnits c \<noteq> units" by auto
    show ?thesis
      using ne len l
      by (simp add: setWorldAxisUnits_def fs t1 t2 c_setIncrement_def c_setReferenceValue_def)
  qed
next
  let ?n = "c_nWorldAxes c"
  assume a: "units \<noteq> c_worldAxisUnits c
     \<and> (\<exists>i < ?n. scale_ratio parse (c_worldAxisUnits c ! i) (units ! i) = None)"
  from ok have l: "length (c_worldAxisUnits c) = ?n" by (simp add: coord_ok_def)
  from find_scale_factor_fails [of "c_worldAxisUnits c" units parse] a l len
  obtain msg where "find_scale_factor parse units (c_worldAxisUnits c) = Inl msg" by auto
  moreover from a have "c_worldAxisUnits c \<noteq> units" by auto
  ultimately show "\<exists>msg. setWorldAxisUnits parse c units = Inr (False, c\<lparr>error_p := msg\<rparr>)"
    using len l by (auto simp: setWorldAxisUnits_def)
qed

lemma km_coord_ok: "coord_ok km_coord" "c_nWorldAxes km_coord = 1"
  "c_worldAxisUnits km_coord = [''km'']" "c_increment km_coord = [2]"
  "c_referenceValue km_coord = [3]"
  by (simp_all add: coord_ok_def km_coord_def linear_coord_def upt_1)

lemma toy_ratios:
  "scale_ratio toy_units ''km'' ''m'' = Some 1000"
  "scale_ratio toy_units ''km'' ''s'' = None"
  by (simp_all add: scale_ratio_def toy_units_def)

theorem setWorldAxisUnits_scales_witness:
  "coord_ok km_coord \<and> length [''km''] = c_nWorldAxes km_coord
   \<and> [''km''] = c_worldAxisUnits km_coord
   \<and> setWorldAxisUnits toy_units km_coord [''km''] = Inr (True, km_coord)
   \<and> [''m''] \<noteq> c_worldAxisUnits km_coord
   \<and> scale_ratio toy_units (c_worldAxisUnits km_coord ! 0) ([''m''] ! 0) = Some 1000
   \<and> setWorldAxisUnits toy_units km_coord [''m''] =
       Inr (True, km_coord\<lparr>c_increment := [2 * 1000], c_referenceValue := [3 * 1000]\<rparr>)
   \<and> [''s''] \<noteq> c_worldAxisUnits km_coord
   \<and> scale_ratio toy_units (c_worldAxisUnits km_coord ! 0) ([''s''] ! 0) = None
   \<and> (\<exists>msg. setWorldAxisUnits toy_units km_coord [''s''] =
          Inr (False, km_coord\<lparr>error_p := msg\<rparr>))"
  using setWorldAxisUnits_scales [OF km_coord_ok(1), of "[''km'']" toy_units]
    setWorldAxisUnits_scales [OF km_coord_ok(1), of "[''m'']" toy_units]
    setWorldAxisUnits_scales [OF km_coord_ok(1), of "[''s'']" toy_units]
  by (simp add: km_coord_ok toy_ratios upt_1)

text \<open>
  The claim as stated also says that the new units are stored. The routine does not store
  them: after a successful change from kilometres to metres the increment and the reference
  value are scaled by 1000 and the units vector still reads kilometres.
\<close>

theorem setWorldAxisUnits_keeps_units:
  "setWorldAxisUnits toy_units km_coord [''m''] =
     Inr (True, km_coord\<lparr>c_increment := [2000], c_referenceValue := [3000]\<rparr>)
   \<and> c_worldAxisUnits (km_coord\<lparr>c_increment := [2000], c_referenceValue := [3000]\<rparr>) = [''km'']"
  by (simp add: setWorldAxisUnits_def find_scale_factor_def km_coord_def linear_coord_def
      toy_units_def times_vec_def c_setIncrement_def c_setReferenceValue_def upt_1)

section \<open>The shape of the parallel blocks\<close>

lemma put_block_length [simp]: "length (put_block b coord axis v) = length b"
  by (simp add: put_block_def)

lemma put_block_nth_length [simp]: "length (put_block b coord axis v ! i) = length (b ! i)"
  by (cases "i < length b"; cases "i = nat coord") (simp_all add: put_block_def list_update_beyond)

lemma shift_down_length [simp]: "length (shift_down axis maps) = length maps"
  by (simp add: shift_down_def)

lemma shift_down_nth_length [simp]:
  "i < length maps \<Longrightarrow> length (shift_down axis maps ! i) = length (maps ! i)"
  by (simp add: shift_down_def)

lemma shape_ok_empty: "shape_ok empty_system"
  by (simp add: shape_ok_def empty_system_def)

lemma shape_ok_add: "shape_ok S \<Longrightarrow> shape_ok (addCoordinate S coord)"
  by (auto simp: shape_ok_def addCoordinate_def Let_def nth_append)

lemma shape_ok_foldl_add: "shape_ok S \<Longrightarrow> shape_ok (foldl addCoordinate S cs)"
  by (induction cs arbitrary: S) (simp_all add: shape_ok_add)

lemma shape_ok_removeWorld:
  "shape_ok S \<Longrightarrow> removeWorldAxis S axis replacement = Inr S' \<Longrightarrow> shape_ok S'"
  by (auto simp: removeWorldAxis_def shape_ok_def split: if_splits sum.splits prod.splits)

lemma shape_ok_removePixel:
  "shape_ok S \<Longrightarrow> removePixelAxis S axis replacement = Inr S' \<Longrightarrow> shape_ok S'"
  by (auto simp: removePixelAxis_def shape_ok_def split: if_splits sum.splits prod.splits)

lemma shape_ok_transpose:
  assumes "maps_ok S" and "shape_ok S"
    and r: "transpose_sys S newWorldOrder newPixelOrder = Inr S'"
  shows "shape_ok S'"
proof -
  from transpose_sys_Inr [OF r] have w: "is_order newWorldOrder (nWorldAxes S)"
    and p: "is_order newPixelOrder (nPixelAxes S)"
    and le: "nWorldAxes S \<le> nPixelAxes S" by simp_all
  from transpose_sys_maps [OF assms(1) w p le] r
  have "S' = S\<lparr>world_maps_p := map (map (relabel newWorldOrder)) (world_maps_p S),
            pixel_maps_p := map (map (relabel newPixelOrder)) (pixel_maps_p S)\<rparr>" by simp
  with assms(2) show ?thesis by (simp add: shape_ok_def)
qed

lemma shape_ok_replace:
  assumes ok: "shape_ok S" and r: "replaceCoordinate S newCoordinate which = Inr S'"
  shows "shape_ok S'"
proof -
  from r have w: "which < length (coordinates_p S)"
    and n: "c_nPixelAxes newCoordinate = c_nPixelAxes (coordinates_p S ! which)"
      "c_nWorldAxes newCoordinate = c_nWorldAxes (coordinates_p S ! which)"
    and S': "S' = S\<lparr>coordinates_p := (coordinates_p S)[which := newCoordinate]\<rparr>"
    by (auto simp: replaceCoordinate_def nCoordinates_def split: if_splits)
  have same: "c_nWorldAxes ((coordinates_p S)[which := newCoordinate] ! i)
        = c_nWorldAxes (coordinates_p S ! i)
      \<and> c_nPixelAxes ((coordinates_p S)[which := newCoordinate] ! i)
        = c_nPixelAxes (coordinates_p S ! i)" if "i < length (coordinates_p S)" for i
    using that n by (cases "i = which") simp_all
  from ok show ?thesis unfolding S' shape_ok_def by (simp add: same)
qed

lemma reachable_shape_ok: "reachable S \<Longrightarrow> shape_ok S"
proof (induction rule: reachable.induct)
  case reach_empty
  show ?case by (rule shape_ok_empty)
next
  case (reach_add S coord)
  then show ?case by (simp add: shape_ok_add)
next
  case (reach_removeWorld S axis replacement S')
  then show ?case by (blast intro: shape_ok_removeWorld)
next
  case (reach_removePixel S axis replacement S')
  then show ?case by (blast intro: shape_ok_removePixel)
next
  case (reach_transpose S newWorldOrder newPixelOrder S')
  then show ?case by (blast intro: shape_ok_transpose reachable_maps_ok)
next
  case (reach_replace S newCoordinate which S')
  then show ?case by (blast intro: shape_ok_replace)
next
  case (reach_restore S)
  show ?case unfolding restoreOriginal_def
    by (rule shape_ok_foldl_add) (rule shape_ok_empty)
qed

section \<open>Claim C10: save\<close>

lemma digit_char_is_digit: "d < 10 \<Longrightarrow> is_digit (digit_char d)"
  unfolding is_digit_def digit_char_def by (rule nth_mem) simp

lemma digit_char_inj:
  assumes "d < 10" "e < 10" "digit_char d = digit_char e"
  shows "d = e"
proof -
  have dist: "distinct ''0123456789''" by simp
  have "d = index_of ''0123456789'' (''0123456789'' ! d)"
    using index_of_nth [OF dist, of d] assms(1) by simp
  also have "\<dots> = index_of ''0123456789'' (''0123456789'' ! e)"
    using assms(3) by (simp only: digit_char_def)
  also have "\<dots> = e" using index_of_nth [OF dist, of e] assms(2) by simp
  finally show ?thesis .
qed

lemma decimal_nonempty: "decimal n \<noteq> []"
  by (subst decimal.simps) simp

lemma decimal_digits: "ch \<in> set (decimal n) \<Longrightarrow> is_digit ch"
proof (induction n arbitrary: ch rule: decimal.induct)
  case (1 n)
  show ?case
  proof (cases "n < 10")
    case True
    with "1.prems" have "ch = digit_char n" by (subst (asm) decimal.simps) simp
    with True show ?thesis by (simp add: digit_char_is_digit)
  next
    case False
    with "1.prems" have "ch \<in> set (decimal (n div 10)) \<or> ch = digit_char (n mod 10)"
      by (subst (asm) decimal.simps) auto
    then show ?thesis
    proof
      assume "ch \<in> set (decimal (n div 10))"
      with "1.IH" False show ?thesis by simp
    next
      assume "ch = digit_char (n mod 10)"
      then show ?thesis by (simp add: digit_char_is_digit)
    qed
  qed
qed

lemma decimal_inj: "decimal m = decimal n \<Longrightarrow> m = n"
proof (induction m arbitrary: n rule: decimal.induct)
  case (1 m)
  show ?case
  proof (cases "m < 10")
    case True
    note m = this
    show ?thesis
    proof (cases "n < 10")
      case True
      with m "1.prems" have "digit_char m = digit_char n"
        by (simp add: decimal.simps [of m] decimal.simps [of n])
      with m True show ?thesis by (blast intro: digit_char_inj)
    next
      case False
      with m "1.prems" have "[digit_char m] = decimal (n div 10) @ [digit_char (n mod 10)]"
        by (simp add: decimal.simps [of m] decimal.simps [of n])
      then have "decimal (n div 10) = []" by simp
      with decimal_nonempty show ?thesis by blast
    qed
  next
    case False
    note m = this
    show ?thesis
    proof (cases "n < 10")
      case True
      with m "1.prems" have "decimal (m div 10) @ [digit_char (m mod 10)] = [digit_char n]"
        by (simp add: decimal.simps [of m] decimal.simps [of n])
      then have "decimal (m div 10) = []" by simp
      with decimal_nonempty show ?thesis by blast
    next
      case False
      with m "1.prems" have e: "decimal (m div 10) = decimal (n div 10)"
        "digit_char (m mod 10) = digit_char (n mod 10)"
        by (simp_all add: decimal.simps [of m] decimal.simps [of n])
      from "1.IH" [OF m e(1)] have "m div 10 = n div 10" .
      moreover from e(2) have "m mod 10 = n mod 10" by (intro digit_char_inj) simp_all
      ultimately show ?thesis by (metis div_mult_mod_eq)
    qed
  qed
qed

lemma split_digits:
  assumes p: "\<forall>ch \<in> set p. \<not> is_digit ch" and q: "\<forall>ch \<in> set q. \<not> is_digit ch"
    and e: "p @ decimal k = q @ decimal j"
  shows "p = q \<and> k = j"
proof -
  have tw: "takeWhile (\<lambda>ch. \<not> is_digit ch) (r @ decimal i) = r"
    if "\<forall>ch \<in> set r. \<not> is_digit ch" for r i
  proof -
    have "takeWhile (\<lambda>ch. \<not> is_digit ch) (decimal i) = []"
      using decimal_nonempty [of i] decimal_digits [of "hd (decimal i)" i]
      by (cases "decimal i") simp_all
    with that show ?thesis by (simp add: takeWhile_append2)
  qed
  have "p = takeWhile (\<lambda>ch. \<not> is_digit ch) (p @ decimal k)" using tw [OF p] by simp
  also have "\<dots> = takeWhile (\<lambda>ch. \<not> is_digit ch) (q @ decimal j)" by (simp only: e)
  also have "\<dots> = q" by (rule tw [OF q])
  finally have pq: "p = q" .
  with e have "decimal k = decimal j" by simp
  with pq show ?thesis by (blast dest: decimal_inj)
qed

lemma plain_names:
  "plain (basename t)" "plain ''worldmap''" "plain ''worldreplace''" "plain ''pixelmap''"
  "plain ''pixelreplace''"
  by (cases t; simp add: plain_def is_digit_def)+

lemma update_fresh: "k \<notin> set (map fst al) \<Longrightarrow> AList.update k v al = al @ [(k, v)]"
  by (induction al) auto

lemma keys_avoid_fresh:
  "keys_avoid r idx \<Longrightarrow> plain p \<Longrightarrow> i \<in> idx \<Longrightarrow> p @ decimal i \<notin> set (map fst r)"
  unfolding keys_avoid_def plain_def
  by (metis split_digits)

lemma keys_avoid_mono: "keys_avoid r idx \<Longrightarrow> idx' \<subseteq> idx \<Longrightarrow> keys_avoid r idx'"
  unfolding keys_avoid_def by (meson subsetD)

lemma keys_avoid_append:
  "keys_avoid r idx \<Longrightarrow> plain p \<Longrightarrow> i \<notin> idx \<Longrightarrow> keys_avoid (r @ [(p @ decimal i, v)]) idx"
  unfolding keys_avoid_def by auto

lemma save_step:
  assumes h: "has_coordinate S i" and a: "keys_avoid r (insert i idx)" and ni: "i \<notin> idx"
    and d: "distinct (map fst r)"
  shows "save_loop own S (i # rest) r = save_loop own S rest (r @ saved_fields own S i)"
    and "keys_avoid (r @ saved_fields own S i) idx"
    and "distinct (map fst (r @ saved_fields own S i))"
proof -
  let ?num = "decimal i"
  let ?c = "coordinates_p S ! i"
  let ?k1 = "basename (c_type ?c) @ ?num"
  let ?r1 = "r @ [(?k1, SubRecord (own ?c))]"
  let ?r2 = "?r1 @ [(''worldmap'' @ ?num, IntVector (world_maps_p S ! i))]"
  let ?r3 = "?r2 @ [(''worldreplace'' @ ?num, DoubleVector (world_replacement_values_p S ! i))]"
  let ?r4 = "?r3 @ [(''pixelmap'' @ ?num, IntVector (pixel_maps_p S ! i))]"
  let ?r5 = "?r4 @ [(''pixelreplace'' @ ?num, DoubleVector (pixel_replacement_values_p S ! i))]"
  have f1: "?k1 \<notin> set (map fst r)" "''worldmap'' @ ?num \<notin> set (map fst r)"
    "''worldreplace'' @ ?num \<notin> set (map fst r)" "''pixelmap'' @ ?num \<notin> set (map fst r)"
    "''pixelreplace'' @ ?num \<notin> set (map fst r)"
    by (rule keys_avoid_fresh [OF a plain_names(1)], simp,
        rule keys_avoid_fresh [OF a plain_names(2)], simp,
        rule keys_avoid_fresh [OF a plain_names(3)], simp,
        rule keys_avoid_fresh [OF a plain_names(4)], simp,
        rule keys_avoid_fresh [OF a plain_names(5)], simp)
  have ne: "?k1 \<noteq> ''worldmap'' @ ?num" "?k1 \<noteq> ''worldreplace'' @ ?num"
    "?k1 \<noteq> ''pixelmap'' @ ?num" "?k1 \<noteq> ''pixelreplace'' @ ?num"
    by (cases "c_type ?c"; simp)+
  have s1: "snd (c_save own ?c r ?k1) = ?r1"
    using f1(1) by (simp add: c_save_def isDefined_def defineRecord_def define_field_def update_fresh)
  have s2: "define_field ?r1 (''worldmap'' @ ?num) (IntVector (world_maps_p S ! i)) = ?r2"
    using f1(2) ne(1) by (simp add: define_field_def update_fresh)
  have s3: "define_field ?r2 (''worldreplace'' @ ?num)
      (DoubleVector (world_replacement_values_p S ! i)) = ?r3"
    using f1(3) ne(2) by (simp add: define_field_def update_fresh)
  have s4: "define_field ?r3 (''pixelmap'' @ ?num) (IntVector (pixel_maps_p S ! i)) = ?r4"
    using f1(4) ne(3) by (simp add: define_field_def update_fresh)
  have s5: "define_field ?r4 (''pixelreplace'' @ ?num)
      (DoubleVector (pixel_replacement_values_p S ! i)) = ?r5"
    using f1(5) ne(4) by (simp add: define_field_def update_fresh)
  have r5: "?r5 = r @ saved_fields own S i" by (simp add: saved_fields_def)
  show "save_loop own S (i # rest) r = save_loop own S rest (r @ saved_fields own S i)"
    using h by (simp add: Let_def s1 s2 s3 s4 s5 r5 del: append_assoc append.simps)
  have a': "keys_avoid r idx" using a by (rule keys_avoid_mono) auto
  show "keys_avoid (r @ saved_fields own S i) idx"
    unfolding r5 [symmetric]
    by (intro keys_avoid_append a' plain_names ni)
  show "distinct (map fst (r @ saved_fields own S i))"
    using d f1 ne by (simp add: saved_fields_def)
qed

lemma save_loop_fields:
  "distinct idx \<Longrightarrow> \<forall>i \<in> set idx. has_coordinate S i \<Longrightarrow> keys_avoid r (set idx)
     \<Longrightarrow> distinct (map fst r) \<Longrightarrow>
   save_loop own S idx r = Inr (r @ concat (map (saved_fields own S) idx))
   \<and> distinct (map fst (r @ concat (map (saved_fields own S) idx)))"
proof (induction idx arbitrary: r)
  case Nil
  then show ?case by simp
next
  case (Cons i idx)
  from Cons.prems have h: "has_coordinate S i" and a: "keys_avoid r (insert i (set idx))"
    and ni: "i \<notin> set idx" and d: "distinct (map fst r)" by simp_all
  note st = save_step [OF h a ni d]
  from Cons.prems have "distinct idx" "\<forall>i \<in> set idx. has_coordinate S i" by simp_all
  from Cons.IH [OF this st(2) st(3)] st(1) [of own idx]
  show ?case by simp
qed

lemma has_coordinate_shape: "shape_ok S \<Longrightarrow> i < length (coordinates_p S) \<Longrightarrow> has_coordinate S i"
  by (simp add: shape_ok_def has_coordinate_def)

text \<open>
  Claim C10. For a reachable system and any container record, \<^verbatim>\<open>save\<close> returns false
  and leaves the container as it is when the container already has a field of the given
  name; otherwise it returns true and adds exactly one field of that name to the
  container, a sub-record that holds for each sub-coordinate \<open>k\<close>, in order, its own
  record and the fields \<open>worldmap<k>\<close>, \<open>worldreplace<k>\<close>, \<open>pixelmap<k>\<close> and
  \<open>pixelreplace<k>\<close>, all under different names.
\<close>

theorem save_defines_subrecord:
  assumes "reachable S"
  shows "(isDefined container fieldName \<longrightarrow>
            save own S container fieldName = Inr (False, container))
    \<and> (\<not> isDefined container fieldName \<longrightarrow>
            save own S container fieldName =
              Inr (True, container @
                     [(fieldName,
                       SubRecord (concat (map (saved_fields own S) [0..<nCoordinates S])))])
            \<and> distinct (map fst (concat (map (saved_fields own S) [0..<nCoordinates S]))))"
proof (intro conjI impI)
  assume "isDefined container fieldName"
  then show "save own S container fieldName = Inr (False, container)"
    by (simp add: save_def)
next
  let ?n = "length (coordinates_p S)"
  from reachable_shape_ok [OF assms] have h: "\<forall>i \<in> set [0..<?n]. has_coordinate S i"
    by (simp add: has_coordinate_shape)
  have "keys_avoid [] (set [0..<?n])" by (simp add: keys_avoid_def)
  from save_loop_fields [OF _ h this, of own] have
    l: "save_loop own S [0..<?n] [] = Inr (concat (map (saved_fields own S) [0..<?n]))"
    and d: "distinct (map fst (concat (map (saved_fields own S) [0..<?n])))"
    by simp_all
  {
    assume nd: "\<not> isDefined container fieldName"
    then show "save own S container fieldName =
        Inr (True, container @
           [(fieldName, SubRecord (concat (map (saved_fields own S) [0..<nCoordinates S])))])"
      by (simp add: save_def l nCoordinates_def defineRecord_def define_field_def
          isDefined_def update_fresh)
  }
  show "distinct (map fst (concat (map (saved_fields own S) [0..<nCoordinates S])))"
    using d by (simp add: nCoordinates_def)
qed

lemma decimal_0_1: "decimal 0 = ''0''" "decimal 1 = ''1''" "decimal (Suc 0) = ''1''"
  by (simp_all add: decimal.simps digit_char_def)

theorem save_defines_subrecord_witness:
  "reachable ex_system
   \<and> isDefined [(''coords'', IntVector [1])] ''coords''
   \<and> save own_crval ex_system [(''coords'', IntVector [1])] ''coords''
       = Inr (False, [(''coords'', IntVector [1])])
   \<and> \<not> isDefined [] ''coords''
   \<and> save own_crval ex_system [] ''coords'' =
       Inr (True,
         [(''coords'', SubRecord
            [(''linear0'', SubRecord [(''crval'', DoubleVector [0, 0])]),
             (''worldmap0'', IntVector [-1, 1]),
             (''worldreplace0'', DoubleVector [5, 0]),
             (''pixelmap0'', IntVector [1, 2]),
             (''pixelreplace0'', DoubleVector [0, 0]),
             (''linear1'', SubRecord [(''crval'', DoubleVector [0])]),
             (''worldmap1'', IntVector [0]),
             (''worldreplace1'', DoubleVector [0]),
             (''pixelmap1'', IntVector [0]),
             (''pixelreplace1'', DoubleVector [0])])])"
  using save_defines_subrecord [OF ex_reachable, of "[(''coords'', IntVector [1])]" "''coords''" own_crval]
    save_defines_subrecord [OF ex_reachable, of "[]" "''coords''" own_crval]
    ex_reachable
  by (simp add: isDefined_def nCoordinates_def ex_system_def upt_0_2 saved_fields_def
      decimal_0_1 own_crval_def linear_coord_def numeral_2_eq_2)

section \<open>Claim C2: bulk conversions against the scalar ones\<close>

lemma same_column_first: "same_column nr 0 col a = same_column nr 0 col b"
  by (simp add: same_column_def)

lemma expected_out_snoc:
  "expected_out conv (seen @ [col]) =
     expected_out conv seen
       @ [if scalar_ok conv col then Some (scalar_result conv col) else None]"
  by (simp add: expected_out_def)

lemma failing_columns_snoc:
  "failing_columns conv (seen @ [col]) =
     failing_columns conv seen @ (if scalar_ok conv col then [] else [int (length seen)])"
proof -
  have "filter (\<lambda>t. \<not> scalar_ok conv ((seen @ [col]) ! t)) [0..<length seen]
      = filter (\<lambda>t. \<not> scalar_ok conv (seen ! t)) [0..<length seen]"
    by (rule filter_cong) (simp_all add: nth_append)
  then show ?thesis by (simp add: failing_columns_def)
qed

lemma record_failure:
  assumes n: "n \<le> length F"
  defines "F' \<equiv> (if Suc n > length F then resize_copy (2 * Suc n) F else F)"
  shows "Suc n \<le> length (F'[n := x])" and "take (Suc n) (F'[n := x]) = take n F @ [x]"
proof -
  have len: "n < length F'" using n by (auto simp: F'_def resize_copy_def)
  have pre: "take n F' = take n F" using n by (auto simp: F'_def resize_copy_def)
  from len show "Suc n \<le> length (F'[n := x])" by simp
  have "take (Suc n) (F'[n := x]) = take n (F'[n := x]) @ [F'[n := x] ! n]"
    using len by (simp add: take_Suc_conv_app_nth)
  also have "\<dots> = take n F @ [x]" using len pre by simp
  finally show "take (Suc n) (F'[n := x]) = take n F @ [x]" .
qed

lemma steady_conv:
  assumes "steady conv nOut"
  shows "(fst (conv out col) = None) = scalar_ok conv col"
    and "scalar_ok conv col \<Longrightarrow> snd (conv out col) = scalar_result conv col"
    and "scalar_ok conv col \<Longrightarrow> length (scalar_result conv col) = nOut"
  using assms unfolding steady_def by blast+

lemma bulk_loop_inv:
  assumes s: "steady conv nOut"
  shows "cache_exact nr conv (seen @ rest) \<Longrightarrow> bulk_inv conv seen st \<Longrightarrow>
     \<exists>st'. bulk_loop nr conv nOut rest (length seen) st = Inr st'
          \<and> bulk_inv conv (seen @ rest) st'"
proof (induction rest arbitrary: seen st)
  case Nil
  then show ?case by simp
next
  case (Cons col rest)
  let ?l = "length seen"
  let ?inp = "seen @ col # rest"
  have at: "?inp ! ?l = col" by simp
  have prev: "?inp ! (?l - 1) = last seen" if "seen \<noteq> []"
    using that by (simp add: nth_append last_conv_nth)
  from Cons.prems(2) have inv:
    "b_out st = expected_out conv seen" "b_nError st \<le> length (b_failures st)"
    "take (b_nError st) (b_failures st) = failing_columns conv seen"
    and lastc: "seen \<noteq> [] \<Longrightarrow> b_last st = last seen"
    and tmpc: "seen \<noteq> [] \<Longrightarrow> scalar_ok conv (last seen) \<Longrightarrow>
                 b_tmp st = scalar_result conv (last seen)"
    by (simp_all add: bulk_inv_def)
  have same_eq: "same_column nr ?l col (b_last st) = same_column nr ?l col (?inp ! (?l - 1))"
  proof (cases "seen = []")
    case True
    then show ?thesis by (simp add: same_column_first [of nr col "b_last st" col])
  next
    case False
    with lastc prev show ?thesis by simp
  qed
  have ce: "0 < ?l \<and> col = ?inp ! (?l - 1) \<and> scalar_ok conv col"
    if sc: "same_column nr ?l col (?inp ! (?l - 1))"
  proof -
    have "?l < length ?inp" by simp
    with Cons.prems(1) have "same_column nr ?l (?inp ! ?l) (?inp ! (?l - 1)) \<longrightarrow>
        0 < ?l \<and> ?inp ! ?l = ?inp ! (?l - 1) \<and> scalar_ok conv (?inp ! ?l)"
      unfolding cache_exact_def by blast
    with sc show ?thesis by (simp only: at)
  qed
  have next_prems: "cache_exact nr conv ((seen @ [col]) @ rest)"
    using Cons.prems(1) by simp
  have len: "length (seen @ [col]) = Suc ?l" by simp
  show ?case
  proof (cases "same_column nr ?l col (b_last st)")
    case True
    with same_eq ce have ne: "seen \<noteq> []" and eq: "col = last seen" and ok: "scalar_ok conv col"
      using prev by auto
    from tmpc [OF ne] ok eq have tmp: "b_tmp st = scalar_result conv col" by simp
    have l: "length (b_tmp st) = nOut" using tmp steady_conv(3) [OF s ok] by simp
    let ?st = "st\<lparr>b_out := b_out st @ [Some (take nOut (b_tmp st))], b_last := col\<rparr>"
    have "bulk_inv conv (seen @ [col]) ?st"
      using inv ok tmp l
      by (simp add: bulk_inv_def expected_out_snoc failing_columns_snoc)
    from Cons.IH [OF next_prems this] obtain st' where
      "bulk_loop nr conv nOut rest (Suc ?l) ?st = Inr st'" "bulk_inv conv (seen @ col # rest) st'"
      by (auto simp: len)
    with True l show ?thesis by simp
  next
    case False
    note calc = this
    show ?thesis
    proof (cases "scalar_ok conv col")
      case True
      obtain w where c: "conv (b_tmp st) col = (None, w)" and w: "w = scalar_result conv col"
        using steady_conv(1) [OF s, of "b_tmp st" col] steady_conv(2) [OF s True, of "b_tmp st"]
          True
        by (cases "conv (b_tmp st) col") auto
      have l: "length w = nOut" using w steady_conv(3) [OF s True] by simp
      let ?st = "st\<lparr>b_tmp := w, b_out := b_out st @ [Some (take nOut w)], b_last := col\<rparr>"
      have "bulk_inv conv (seen @ [col]) ?st"
        using inv True w l
        by (simp add: bulk_inv_def expected_out_snoc failing_columns_snoc)
      from Cons.IH [OF next_prems this] obtain st' where
        "bulk_loop nr conv nOut rest (Suc ?l) ?st = Inr st'"
        "bulk_inv conv (seen @ col # rest) st'"
        by (auto simp: len)
      with calc c l show ?thesis by simp
    next
      case False
      obtain msg w where c: "conv (b_tmp st) col = (Some msg, w)"
        using steady_conv(1) [OF s, of "b_tmp st" col] False
        by (cases "conv (b_tmp st) col") auto
      let ?n = "b_nError st"
      let ?F = "if Suc ?n > length (b_failures st)
                then resize_copy (2 * Suc ?n) (b_failures st) else b_failures st"
      let ?st = "st\<lparr>b_tmp := w, b_out := b_out st @ [None], b_nError := Suc ?n,
                     b_failures := ?F[?n := int ?l],
                     b_errorMsg := (if Suc ?n = 1 then msg else b_errorMsg st),
                     b_last := col\<rparr>"
      note rf = record_failure [OF inv(2), of "int ?l"]
      have "bulk_inv conv (seen @ [col]) ?st"
        using inv(1,3) False rf
        by (simp add: bulk_inv_def expected_out_snoc failing_columns_snoc)
      from Cons.IH [OF next_prems this] obtain st' where
        "bulk_loop nr conv nOut rest (Suc ?l) ?st = Inr st'"
        "bulk_inv conv (seen @ col # rest) st'"
        by (auto simp: len)
      with calc c show ?thesis by (simp add: Let_def)
    qed
  qed
qed

lemma bulk_matches_scalar:
  assumes s: "steady conv nOut" and shape: "list_all (\<lambda>col. length col = nIn) inp"
    and ce: "cache_exact nr conv inp"
  shows "\<exists>n F c'. bulk nr conv nIn nOut c inp failures = Inr (n, expected_out conv inp, F, c')
           \<and> take n F = failing_columns conv inp"
proof -
  let ?st0 = "\<lparr>b_last = replicate nIn 0, b_tmp = replicate nOut 0, b_out = [],
               b_nError = 0, b_failures = failures, b_errorMsg = ''''\<rparr>"
  have "bulk_inv conv [] ?st0"
    by (simp add: bulk_inv_def expected_out_def failing_columns_def)
  from bulk_loop_inv [OF s, of nr "[]" inp ?st0] ce this obtain st' where
    "bulk_loop nr conv nOut inp 0 ?st0 = Inr st'" "bulk_inv conv inp st'" by auto
  with shape show ?thesis by (simp add: bulk_def bulk_inv_def)
qed

text \<open>
  Claim C2, as amended. For a coordinate whose scalar conversions are steady, and a matrix
  with the right number of rows in which every column that passes the cache's test against
  its predecessor is identical to that predecessor and is converted successfully by the
  scalar conversion, \<^verbatim>\<open>toWorldMany\<close> returns: for every column on which the scalar
  \<^verbatim>\<open>toWorld\<close> succeeds, exactly the scalar result; and as failures exactly the columns
  on which the scalar \<^verbatim>\<open>toWorld\<close> fails, in order. \<^verbatim>\<open>toPixelMany\<close> likewise.
\<close>

theorem many_matches_scalar:
  assumes "steady (c_toWorld c) (c_nWorldAxes c)"
    and "list_all (\<lambda>col. length col = c_nPixelAxes c) pixel"
    and "cache_exact nr (c_toWorld c) pixel"
    and "steady (c_toPixel c) (c_nPixelAxes c)"
    and "list_all (\<lambda>col. length col = c_nWorldAxes c) world"
    and "cache_exact nr (c_toPixel c) world"
  shows "(\<exists>n F c'. toWorldMany nr c pixel failures =
              Inr (n, expected_out (c_toWorld c) pixel, F, c')
            \<and> take n F = failing_columns (c_toWorld c) pixel)
       \<and> (\<exists>n F c'. toPixelMany nr c world failures =
              Inr (n, expected_out (c_toPixel c) world, F, c')
            \<and> take n F = failing_columns (c_toPixel c) world)"
  unfolding toWorldMany_def toPixelMany_def
  using bulk_matches_scalar [OF assms(1-3)] bulk_matches_scalar [OF assms(4-6)]
  by blast

lemma doubling_fields:
  "c_nWorldAxes doubling_coord = 1" "c_nPixelAxes doubling_coord = 1"
  "c_toWorld doubling_coord = (\<lambda>out pixel. if pixel ! 0 < 0 then (Some ''negative'', out)
                                               else (None, [2 * pixel ! 0]))"
  "c_toPixel doubling_coord = (\<lambda>out world. if world ! 0 < 0 then (Some ''negative'', out)
                                               else (None, [world ! 0 / 2]))"
  by (simp_all add: doubling_coord_def linear_coord_def)

lemma doubling_steady:
  "steady (c_toWorld doubling_coord) (c_nWorldAxes doubling_coord)"
  "steady (c_toPixel doubling_coord) (c_nPixelAxes doubling_coord)"
  by (simp_all add: steady_def scalar_ok_def scalar_result_def doubling_fields)

lemma cache_exact_list:
  "cache_exact nr conv inp =
     list_all (\<lambda>t. same_column nr t (inp ! t) (inp ! (t - 1)) \<longrightarrow>
                  0 < t \<and> inp ! t = inp ! (t - 1) \<and> scalar_ok conv (inp ! t))
       [0..<length inp]"
  by (auto simp: cache_exact_def list_all_iff)

lemma upt_0_4: "[0..<4] = [0, 1, 2, 3]"
  by (simp add: upt_rec)

lemma doubling_cache:
  "cache_exact near13 (c_toWorld doubling_coord) [[1], [1], [3], [-1]]"
  "cache_exact near13 (c_toPixel doubling_coord) [[2], [2], [6], [-1]]"
  by (simp_all add: cache_exact_list upt_0_4 same_column_def near13_def scalar_ok_def
      doubling_fields)

theorem many_matches_scalar_witness:
  "steady (c_toWorld doubling_coord) (c_nWorldAxes doubling_coord)
   \<and> list_all (\<lambda>col. length col = c_nPixelAxes doubling_coord) [[1], [1], [3], [-1]]
   \<and> cache_exact near13 (c_toWorld doubling_coord) [[1], [1], [3], [-1]]
   \<and> steady (c_toPixel doubling_coord) (c_nPixelAxes doubling_coord)
   \<and> list_all (\<lambda>col. length col = c_nWorldAxes doubling_coord) [[2], [2], [6], [-1]]
   \<and> cache_exact near13 (c_toPixel doubling_coord) [[2], [2], [6], [-1]]
   \<and> (\<exists>n F c'. toWorldMany near13 doubling_coord [[1], [1], [3], [-1]] [] =
              Inr (n, [Some [2], Some [2], Some [6], None], F, c')
            \<and> take n F = [3])
   \<and> (\<exists>n F c'. toPixelMany near13 doubling_coord [[2], [2], [6], [-1]] [] =
              Inr (n, [Some [1], Some [1], Some [3], None], F, c')
            \<and> take n F = [3])"
proof -
  have sh: "list_all (\<lambda>col. length col = c_nPixelAxes doubling_coord) [[1], [1], [3], [-1]]"
    "list_all (\<lambda>col. length col = c_nWorldAxes doubling_coord) [[2], [2], [6], [-1]]"
    by (simp_all add: doubling_fields)
  have e: "expected_out (c_toWorld doubling_coord) [[1], [1], [3], [-1]]
      = [Some [2], Some [2], Some [6], None]"
    "expected_out (c_toPixel doubling_coord) [[2], [2], [6], [-1]]
      = [Some [1], Some [1], Some [3], None]"
    by (simp_all add: expected_out_def scalar_ok_def scalar_result_def doubling_fields)
  have f: "failing_columns (c_toWorld doubling_coord) [[1], [1], [3], [-1]] = [3]"
    "failing_columns (c_toPixel doubling_coord) [[2], [2], [6], [-1]] = [3]"
    by (simp_all add: failing_columns_def scalar_ok_def doubling_fields upt_0_4)
  from many_matches_scalar [OF doubling_steady(1) sh(1) doubling_cache(1)
      doubling_steady(2) sh(2) doubling_cache(2), of "[]"]
  show ?thesis
    unfolding e f using doubling_steady sh doubling_cache by blast
qed

text \<open>
  The claim as stated asks the same of every matrix. It fails for a column that is
  near-equal but not identical to its predecessor: the cache answers column 1 with the
  result of column 0, which is not the scalar result of column 1. It also fails for a
  column whose predecessor failed: the second of two equal failing columns passes the
  test, is answered from the temporary and is not reported, while the scalar conversion
  fails on it.
\<close>

theorem many_differs_from_scalar:
  "toWorldMany near13 doubling_coord [[1], [1 + 1 / 100000000000000]] [] =
     Inr (0, [Some [2], Some [2]], [], doubling_coord)
   \<and> c_toWorld doubling_coord [] [1 + 1 / 100000000000000] = (None, [2 + 2 / 100000000000000])
   \<and> toWorldMany near13 doubling_coord [[-1], [-1]] [] =
     Inr (1, [None, Some [0]], [0, 0], doubling_coord\<lparr>error_p := ''negative''\<rparr>)
   \<and> fst (c_toWorld doubling_coord [] [-1]) = Some ''negative''
   \<and> toPixelMany near13 doubling_coord [[-1], [-1]] [] =
     Inr (1, [None, Some [0]], [0, 0], doubling_coord\<lparr>error_p := ''negative''\<rparr>)
   \<and> fst (c_toPixel doubling_coord [] [-1]) = Some ''negative''"
  by (simp add: toWorldMany_def toPixelMany_def bulk_def same_column_def near13_def
      doubling_fields resize_copy_def Let_def numeral_2_eq_2)

section \<open>Reading and writing through the maps\<close>

lemma for_each_cong:
  "(\<And>i. i \<in> set idx \<Longrightarrow> f i = g i) \<Longrightarrow> for_each f idx = for_each g idx"
proof (induction idx)
  case Nil
  show ?case by simp
next
  case (Cons a idx)
  from Cons.prems have "f a = g a" "for_each f idx = for_each g idx"
    by (simp_all add: Cons.IH)
  then show ?case by (simp split: sum.splits)
qed

lemma for_each_Inr:
  "(\<And>i. i \<in> set idx \<Longrightarrow> f i = Inr (g i)) \<Longrightarrow> for_each f idx = Inr (map g idx)"
  by (induction idx) simp_all

lemma world_vector_gather:
  "world_vector S vec = gather (world_maps_p S) (coordinates_p S) vec"
  unfolding world_vector_def gather_def nWorldAxes_def
  by (rule for_each_cong) (simp add: findWorldAxis_def nWorldAxes_def)

lemma pixel_vector_gather:
  "pixel_vector S vec = gather (pixel_maps_p S) (coordinates_p S) vec"
  unfolding pixel_vector_def gather_def nPixelAxes_def
  by (rule for_each_cong) (simp add: findPixelAxis_def nPixelAxes_def)

lemma gather_cong:
  assumes "length cs' = length cs" and "\<And>i. i < length cs \<Longrightarrow> vec (cs' ! i) = vec (cs ! i)"
  shows "gather maps cs' vec = gather maps cs vec"
  unfolding gather_def
proof (rule for_each_cong)
  fix i
  obtain coord coordAxis where f: "find_axis maps (int i) = (coord, coordAxis)"
    by (cases "find_axis maps (int i)")
  show "(case find_axis maps (int i) of (coord, coordAxis) \<Rightarrow> axis_entry cs' vec coord coordAxis)
      = (case find_axis maps (int i) of (coord, coordAxis) \<Rightarrow> axis_entry cs vec coord coordAxis)"
    using assms by (auto simp: f axis_entry_def)
qed

lemma gather_Inr:
  assumes ok: "axes_ok maps" and len: "length maps = length cs"
    and vl: "\<And>i. i < length cs \<Longrightarrow> length (vec (cs ! i)) = length (maps ! i)"
  shows "\<exists>v. gather maps cs vec = Inr v \<and> length v = count_axes maps
           \<and> (\<forall>c a. c < length maps \<longrightarrow> a < length (maps ! c) \<longrightarrow> 0 \<le> maps ! c ! a
                 \<longrightarrow> v ! nat (maps ! c ! a) = vec (cs ! c) ! a)"
proof -
  let ?n = "count_axes maps"
  let ?g = "\<lambda>k. case find_axis maps (int k) of (c, a) \<Rightarrow> vec (cs ! nat c) ! nat a"
  from ok have d0: "distinct (exposed maps)" and s0: "set (exposed maps) = {0..<int ?n}"
    by (simp_all add: axes_ok_def)
  have body: "(case find_axis maps (int k) of
                 (coord, coordAxis) \<Rightarrow> axis_entry cs vec coord coordAxis) = Inr (?g k)"
    if "k \<in> set [0..<?n]" for k
  proof -
    from that have "k < ?n" by simp
    from axes_ok_find [OF ok this] obtain c a where
      ca: "find_axis maps (int k) = (int c, int a)" "c < length maps" "a < length (maps ! c)"
      by blast
    with len vl [of c] show ?thesis by (simp add: axis_entry_def)
  qed
  have g: "gather maps cs vec = Inr (map ?g [0..<?n])"
    unfolding gather_def using body by (rule for_each_Inr)
  have vals: "map ?g [0..<?n] ! nat (maps ! c ! a) = vec (cs ! c) ! a"
    if c: "c < length maps" and a: "a < length (maps ! c)" and nn: "0 \<le> maps ! c ! a" for c a
  proof -
    let ?w = "maps ! c ! a"
    from exposed_mem [OF c a nn] s0 have w: "nat ?w < ?n" by auto
    from axes_ok_find [OF ok w] nn obtain c' a' where
      ca: "find_axis maps ?w = (int c', int a')" "c' < length maps" "a' < length (maps ! c')"
        "maps ! c' ! a' = ?w" by auto
    from position_unique [OF d0 ca(2,3) c a ca(4)] nn ca(4) have "c' = c \<and> a' = a" by simp
    with ca(1) w nn show ?thesis by simp
  qed
  from g vals show ?thesis by auto
qed

lemma scatter_Inr:
  assumes "length amap = length tmp"
    and "\<And>j. j < length tmp \<Longrightarrow> 0 \<le> amap ! j \<Longrightarrow> nat (amap ! j) < length src"
  shows "scatter amap src tmp = Inr (scattered amap src tmp)"
  unfolding scatter_def scattered_def
  by (rule for_each_Inr) (simp add: assms Let_def)

lemma set_vector_Inr:
  assumes len: "length maps = length cs"
    and gl: "\<And>i. i < length cs \<Longrightarrow> length (getter (cs ! i)) = length (maps ! i)"
    and rng: "\<And>i j. i < length cs \<Longrightarrow> j < length (maps ! i) \<Longrightarrow> 0 \<le> maps ! i ! j
                \<Longrightarrow> nat (maps ! i ! j) < length src"
  shows "set_vector cs maps getter setter src =
     Inr (list_all fst (map (\<lambda>i. setter (cs ! i) (scattered (maps ! i) src (getter (cs ! i))))
                         [0..<length cs]),
          map snd (map (\<lambda>i. setter (cs ! i) (scattered (maps ! i) src (getter (cs ! i))))
                     [0..<length cs]))"
proof -
  have "for_each (\<lambda>i. if i < length maps
                       then (case scatter (maps ! i) src (getter (cs ! i)) of
                               Inl e \<Rightarrow> Inl e
                             | Inr tmp \<Rightarrow> Inr (setter (cs ! i) tmp))
                       else Inl IndexOutOfRange) [0..<length cs]
      = Inr (map (\<lambda>i. setter (cs ! i) (scattered (maps ! i) src (getter (cs ! i))))
               [0..<length cs])"
  proof (rule for_each_Inr)
    fix i assume "i \<in> set [0..<length cs]"
    then have i: "i < length cs" by simp
    have "scatter (maps ! i) src (getter (cs ! i))
        = Inr (scattered (maps ! i) src (getter (cs ! i)))"
      using gl [OF i] rng [OF i] by (intro scatter_Inr) simp_all
    with i len show "(if i < length maps
                       then (case scatter (maps ! i) src (getter (cs ! i)) of
                               Inl e \<Rightarrow> Inl e
                             | Inr tmp \<Rightarrow> Inr (setter (cs ! i) tmp))
                       else Inl IndexOutOfRange)
        = Inr (setter (cs ! i) (scattered (maps ! i) src (getter (cs ! i))))" by simp
  qed
  then show ?thesis by (simp add: set_vector_def)
qed

lemma entry_in_range:
  assumes "axes_ok maps" "c < length maps" "a < length (maps ! c)" "0 \<le> maps ! c ! a"
  shows "nat (maps ! c ! a) < count_axes maps"
proof -
  from exposed_mem [OF assms(2-4)] have "maps ! c ! a \<in> set (exposed maps)" .
  moreover from assms(1) have "set (exposed maps) = {0..<int (count_axes maps)}"
    by (simp add: axes_ok_def)
  ultimately show ?thesis by auto
qed

lemma stored_length [simp]: "length (stored maps cs getter upd src) = length cs"
  by (simp add: stored_def)

lemma stored_nth:
  "i < length cs \<Longrightarrow>
     stored maps cs getter upd src ! i = upd (scattered (maps ! i) src (getter (cs ! i))) (cs ! i)"
  by (simp add: stored_def)

lemma scattered_length [simp]: "length (scattered amap src tmp) = length tmp"
  by (simp add: scattered_def)

lemma scattered_nth:
  "j < length tmp \<Longrightarrow>
     scattered amap src tmp ! j = (if 0 \<le> amap ! j then src ! nat (amap ! j) else tmp ! j)"
  by (simp add: scattered_def)

lemma set_vector_stored:
  assumes ok: "axes_ok maps" and len: "length maps = length cs"
    and gl: "\<And>i. i < length cs \<Longrightarrow> length (getter (cs ! i)) = length (maps ! i)"
    and src: "length src = count_axes maps"
    and acc: "\<And>i. i < length cs \<Longrightarrow>
                setter (cs ! i) (scattered (maps ! i) src (getter (cs ! i)))
                  = (True, upd (scattered (maps ! i) src (getter (cs ! i))) (cs ! i))"
  shows "set_vector cs maps getter setter src = Inr (True, stored maps cs getter upd src)"
proof -
  have rng: "nat (maps ! i ! j) < length src"
    if "i < length cs" "j < length (maps ! i)" "0 \<le> maps ! i ! j" for i j
    using entry_in_range [OF ok _ that(2,3)] that(1) len src by simp
  have m: "map (\<lambda>i. setter (cs ! i) (scattered (maps ! i) src (getter (cs ! i)))) [0..<length cs]
      = map (\<lambda>i. (True, upd (scattered (maps ! i) src (getter (cs ! i))) (cs ! i)))
          [0..<length cs]"
    by (rule map_cong) (simp_all add: acc)
  have sv: "set_vector cs maps getter setter src =
     Inr (list_all fst (map (\<lambda>i. setter (cs ! i) (scattered (maps ! i) src (getter (cs ! i))))
                         [0..<length cs]),
          map snd (map (\<lambda>i. setter (cs ! i) (scattered (maps ! i) src (getter (cs ! i))))
                     [0..<length cs]))"
    using len gl rng by (rule set_vector_Inr)
  show ?thesis
    unfolding sv m by (simp add: stored_def list_all_iff comp_def)
qed

lemma gather_stored:
  assumes ok: "axes_ok maps" and len: "length maps = length cs"
    and gl: "\<And>i. i < length cs \<Longrightarrow> length (getter (cs ! i)) = length (maps ! i)"
    and src: "length src = count_axes maps"
    and get: "\<And>t c. getter (upd t c) = t"
  shows "gather maps (stored maps cs getter upd src) getter = Inr src"
proof -
  let ?cs = "stored maps cs getter upd src"
  have gl': "length (getter (?cs ! i)) = length (maps ! i)" if "i < length ?cs" for i
    using that gl [of i] by (simp add: stored_nth get)
  from gather_Inr [of maps ?cs getter, OF ok _ gl'] len obtain v where
    v: "gather maps ?cs getter = Inr v" "length v = count_axes maps"
      "\<And>c a. c < length maps \<Longrightarrow> a < length (maps ! c) \<Longrightarrow> 0 \<le> maps ! c ! a
          \<Longrightarrow> v ! nat (maps ! c ! a) = getter (?cs ! c) ! a"
    by auto
  have "v = src"
  proof (rule nth_equalityI)
    show "length v = length src" by (simp add: v(2) src)
  next
    fix k assume "k < length v"
    then have k: "k < count_axes maps" by (simp add: v(2))
    from axes_ok_find [OF ok k] obtain c a where
      ca: "c < length maps" "a < length (maps ! c)" "maps ! c ! a = int k" by blast
    from v(3) [OF ca(1,2)] ca(3) have "v ! k = getter (?cs ! c) ! a" by simp
    also have "\<dots> = scattered (maps ! c) src (getter (cs ! c)) ! a"
      using ca(1) len by (simp add: stored_nth get)
    also have "\<dots> = src ! k"
      using ca gl [of c] len by (simp add: scattered_nth)
    finally show "v ! k = src ! k" .
  qed
  with v(1) show ?thesis by simp
qed

lemma gather_stored_other:
  assumes "\<And>t c. vec (upd t c) = vec c"
  shows "gather maps' (stored maps cs getter upd src) vec = gather maps' cs vec"
  by (rule gather_cong) (simp_all add: stored_nth assms)

lemma linearTransform_cong:
  assumes w: "world_maps_p S' = world_maps_p S" and p: "pixel_maps_p S' = pixel_maps_p S"
    and l: "length (coordinates_p S') = length (coordinates_p S)"
    and x: "\<And>i. i < length (coordinates_p S) \<Longrightarrow>
              c_linearTransform (coordinates_p S' ! i) = c_linearTransform (coordinates_p S ! i)"
  shows "linearTransform S' = linearTransform S"
proof -
  have n: "nWorldAxes S' = nWorldAxes S" "nPixelAxes S' = nPixelAxes S"
    by (simp_all add: nWorldAxes_def nPixelAxes_def w p)
  have f: "findWorldAxis S' = findWorldAxis S" "findPixelAxis S' = findPixelAxis S"
    by (rule ext; simp add: findWorldAxis_def findPixelAxis_def n w p)+
  have e: "(if nat wc < length (coordinates_p S')
            then matrix_entry (c_linearTransform (coordinates_p S' ! nat wc)) wa pa
            else Inl IndexOutOfRange)
         = (if nat wc < length (coordinates_p S)
            then matrix_entry (c_linearTransform (coordinates_p S ! nat wc)) wa pa
            else Inl IndexOutOfRange)" for wc wa pa
    using l x [of "nat wc"] by simp
  show ?thesis
    unfolding linearTransform_def n f e ..
qed

section \<open>The loop of subImage\<close>

lemma subImage_loop_ok:
  "distinct idx \<Longrightarrow>
   (\<And>i. i \<in> set idx \<Longrightarrow> 1 \<le> pixinc ! i \<and> i < length crpix \<and> i < length cdelt) \<Longrightarrow>
   subImage_loop idx originShift pixinc crpix cdelt =
     Inr (map (\<lambda>i. if i \<in> set idx
                    then (crpix ! i - real_of_int (originShift ! i)) / real_of_int (pixinc ! i)
                    else crpix ! i) [0..<length crpix],
          map (\<lambda>i. if i \<in> set idx then cdelt ! i * real_of_int (pixinc ! i) else cdelt ! i)
            [0..<length cdelt])"
proof (induction idx arbitrary: crpix cdelt)
  case Nil
  show ?case by (simp add: map_nth)
next
  case (Cons k idx)
  let ?p = "(crpix ! k - real_of_int (originShift ! k)) / real_of_int (pixinc ! k)"
  let ?d = "cdelt ! k * real_of_int (pixinc ! k)"
  from Cons.prems(2) [of k] have k: "1 \<le> pixinc ! k" "k < length crpix" "k < length cdelt"
    by simp_all
  from Cons.prems(1) have nk: "k \<notin> set idx" and d: "distinct idx" by simp_all
  have pre: "\<And>i. i \<in> set idx \<Longrightarrow>
      1 \<le> pixinc ! i \<and> i < length (crpix[k := ?p]) \<and> i < length (cdelt[k := ?d])"
    using Cons.prems(2) by simp
  have m1: "map (\<lambda>i. if i \<in> set idx
                    then (crpix[k := ?p] ! i - real_of_int (originShift ! i))
                           / real_of_int (pixinc ! i)
                    else crpix[k := ?p] ! i) [0..<length (crpix[k := ?p])]
       = map (\<lambda>i. if i \<in> set (k # idx)
                    then (crpix ! i - real_of_int (originShift ! i)) / real_of_int (pixinc ! i)
                    else crpix ! i) [0..<length crpix]"
    using nk k by (auto simp: nth_list_update)
  have m2: "map (\<lambda>i. if i \<in> set idx then cdelt[k := ?d] ! i * real_of_int (pixinc ! i)
                    else cdelt[k := ?d] ! i) [0..<length (cdelt[k := ?d])]
       = map (\<lambda>i. if i \<in> set (k # idx) then cdelt ! i * real_of_int (pixinc ! i)
                    else cdelt ! i) [0..<length cdelt]"
    using nk k by (auto simp: nth_list_update)
  show ?case
    using k Cons.IH [OF d pre] unfolding m1 m2 by simp
qed

lemma subImage_loop_fails:
  "\<exists>i \<in> set idx. \<not> 1 \<le> pixinc ! i \<Longrightarrow>
   (\<And>i. i \<in> set idx \<Longrightarrow> i < length crpix \<and> i < length cdelt) \<Longrightarrow>
   subImage_loop idx originShift pixinc crpix cdelt = Inl InvalidIncrement"
proof (induction idx arbitrary: crpix cdelt)
  case Nil
  then show ?case by simp
next
  case (Cons k idx)
  show ?case
  proof (cases "1 \<le> pixinc ! k")
    case False
    then show ?thesis by simp
  next
    case True
    with Cons.prems(1) have ex: "\<exists>i \<in> set idx. \<not> 1 \<le> pixinc ! i" by auto
    from Cons.prems(2) [of k] have k: "k < length crpix" "k < length cdelt" by simp_all
    have "subImage_loop idx originShift pixinc
            (crpix[k := (crpix ! k - real_of_int (originShift ! k)) / real_of_int (pixinc ! k)])
            (cdelt[k := cdelt ! k * real_of_int (pixinc ! k)]) = Inl InvalidIncrement"
      using Cons.prems(2) by (intro Cons.IH [OF ex]) simp
    with True k show ?thesis by simp
  qed
qed

lemma subImage_loop_all:
  assumes "length crpix = n" "n \<le> length cdelt" "\<forall>i < n. 1 \<le> pixinc ! i"
  shows "subImage_loop [0..<n] originShift pixinc crpix cdelt =
     Inr (sub_refpix crpix originShift pixinc, sub_increment n cdelt pixinc)"
proof -
  have "subImage_loop [0..<n] originShift pixinc crpix cdelt =
     Inr (map (\<lambda>i. if i \<in> set [0..<n]
                    then (crpix ! i - real_of_int (originShift ! i)) / real_of_int (pixinc ! i)
                    else crpix ! i) [0..<length crpix],
          map (\<lambda>i. if i \<in> set [0..<n] then cdelt ! i * real_of_int (pixinc ! i) else cdelt ! i)
            [0..<length cdelt])"
    using assms by (intro subImage_loop_ok) auto
  also have "map (\<lambda>i. if i \<in> set [0..<n]
                    then (crpix ! i - real_of_int (originShift ! i)) / real_of_int (pixinc ! i)
                    else crpix ! i) [0..<length crpix] = sub_refpix crpix originShift pixinc"
    using assms(1) by (simp add: sub_refpix_def)
  also have "map (\<lambda>i. if i \<in> set [0..<n] then cdelt ! i * real_of_int (pixinc ! i)
                    else cdelt ! i) [0..<length cdelt] = sub_increment n cdelt pixinc"
    by (simp add: sub_increment_def)
  finally show ?thesis .
qed

lemma gather_length:
  assumes "axes_ok maps" "length maps = length cs"
    and "\<And>i. i < length cs \<Longrightarrow> length (vec (cs ! i)) = length (maps ! i)"
  shows "\<exists>v. gather maps cs vec = Inr v \<and> length v = count_axes maps"
  using gather_Inr [of maps cs vec, OF assms] by blast

lemma coord_ok_nth:
  "list_all coord_ok cs \<Longrightarrow> i < length cs \<Longrightarrow> coord_ok (cs ! i)"
  by (simp add: list_all_length)

lemma subImage_stores:
  assumes mo: "maps_ok S" and so: "shape_ok S" and co: "list_all coord_ok (coordinates_p S)"
    and lp: "length crpix' = nPixelAxes S" and lw: "length cdelt' = nWorldAxes S"
  defines "cs1 \<equiv> stored (pixel_maps_p S) (coordinates_p S) c_referencePixel
                    put_referencePixel crpix'"
  defines "cs2 \<equiv> stored (world_maps_p S) cs1 c_increment put_increment cdelt'"
  shows "setReferencePixel S crpix' = Inr (True, S\<lparr>coordinates_p := cs1\<rparr>)"
    and "setIncrement (S\<lparr>coordinates_p := cs1\<rparr>) cdelt' = Inr (True, S\<lparr>coordinates_p := cs2\<rparr>)"
    and "referencePixel (S\<lparr>coordinates_p := cs2\<rparr>) = Inr crpix'"
    and "increment (S\<lparr>coordinates_p := cs2\<rparr>) = Inr cdelt'"
    and "referenceValue (S\<lparr>coordinates_p := cs2\<rparr>) = referenceValue S"
    and "worldAxisNames (S\<lparr>coordinates_p := cs2\<rparr>) = worldAxisNames S"
    and "worldAxisUnits (S\<lparr>coordinates_p := cs2\<rparr>) = worldAxisUnits S"
    and "linearTransform (S\<lparr>coordinates_p := cs2\<rparr>) = linearTransform S"
proof -
  let ?cs = "coordinates_p S"
  let ?wm = "world_maps_p S"
  let ?pm = "pixel_maps_p S"
  from mo have aw: "axes_ok ?wm" and ap: "axes_ok ?pm" by (simp_all add: maps_ok_def)
  from so have lenw: "length ?wm = length ?cs" and lenp: "length ?pm = length ?cs"
    by (simp_all add: shape_ok_def)
  have sh: "length (?wm ! i) = c_nWorldAxes (?cs ! i)" "length (?pm ! i) = c_nPixelAxes (?cs ! i)"
    if "i < length ?cs" for i
    using so that by (simp_all add: shape_ok_def)
  have ck: "length (c_referencePixel (?cs ! i)) = c_nPixelAxes (?cs ! i)"
    "length (c_increment (?cs ! i)) = c_nWorldAxes (?cs ! i)"
    if "i < length ?cs" for i
    using coord_ok_nth [OF co that] by (simp_all add: coord_ok_def)
  have glP: "length (c_referencePixel (?cs ! i)) = length (?pm ! i)" if "i < length ?cs" for i
    using sh(2) [OF that] ck(1) [OF that] by simp
  have glI: "length (c_increment (?cs ! i)) = length (?wm ! i)" if "i < length ?cs" for i
    using sh(1) [OF that] ck(2) [OF that] by simp
  have lp': "length crpix' = count_axes ?pm" using lp by (simp add: nPixelAxes_def)
  have lw': "length cdelt' = count_axes ?wm" using lw by (simp add: nWorldAxes_def)
  have accP: "c_setReferencePixel (?cs ! i) (scattered (?pm ! i) crpix' (c_referencePixel (?cs ! i)))
      = (True, put_referencePixel (scattered (?pm ! i) crpix' (c_referencePixel (?cs ! i))) (?cs ! i))"
    if "i < length ?cs" for i
    using ck(1) [OF that] by (simp add: c_setReferencePixel_def put_referencePixel_def)
  have "set_vector ?cs ?pm c_referencePixel c_setReferencePixel crpix' = Inr (True, cs1)"
    unfolding cs1_def using ap lenp glP lp' accP by (rule set_vector_stored)
  then show "setReferencePixel S crpix' = Inr (True, S\<lparr>coordinates_p := cs1\<rparr>)"
    by (simp add: setReferencePixel_def with_coordinates_def)
  have l1: "length cs1 = length ?cs" by (simp add: cs1_def)
  have n1: "cs1 ! i = put_referencePixel (scattered (?pm ! i) crpix' (c_referencePixel (?cs ! i)))
                       (?cs ! i)" if "i < length ?cs" for i
    using that by (simp add: cs1_def stored_nth)
  have lenw1: "length ?wm = length cs1" using lenw l1 by simp
  have glI1: "length (c_increment (cs1 ! i)) = length (?wm ! i)" if "i < length cs1" for i
    using that glI [of i] l1 by (simp add: n1 put_referencePixel_def)
  have accI: "c_setIncrement (cs1 ! i) (scattered (?wm ! i) cdelt' (c_increment (cs1 ! i)))
      = (True, put_increment (scattered (?wm ! i) cdelt' (c_increment (cs1 ! i))) (cs1 ! i))"
    if "i < length cs1" for i
    using that ck(2) [of i] l1
    by (simp add: n1 c_setIncrement_def put_increment_def put_referencePixel_def)
  have "set_vector cs1 ?wm c_increment c_setIncrement cdelt' = Inr (True, cs2)"
    unfolding cs2_def using aw lenw1 glI1 lw' accI by (rule set_vector_stored)
  then show "setIncrement (S\<lparr>coordinates_p := cs1\<rparr>) cdelt' = Inr (True, S\<lparr>coordinates_p := cs2\<rparr>)"
    by (simp add: setIncrement_def with_coordinates_def)
  have g2: "gather maps cs2 vec = gather maps cs1 vec"
    if "\<And>t c. vec (put_increment t c) = vec c" for vec :: "Coordinate \<Rightarrow> 'a list" and maps
    unfolding cs2_def using that by (rule gather_stored_other)
  have g1: "gather maps cs1 vec = gather maps ?cs vec"
    if "\<And>t c. vec (put_referencePixel t c) = vec c" for vec :: "Coordinate \<Rightarrow> 'a list" and maps
    unfolding cs1_def using that by (rule gather_stored_other)
  have "gather ?pm cs2 c_referencePixel = gather ?pm cs1 c_referencePixel"
    by (rule g2) (simp add: put_increment_def)
  also have "\<dots> = Inr crpix'"
    unfolding cs1_def using ap lenp glP lp'
    by (rule gather_stored) (simp_all add: put_referencePixel_def)
  finally show "referencePixel (S\<lparr>coordinates_p := cs2\<rparr>) = Inr crpix'"
    by (simp add: referencePixel_def pixel_vector_gather)
  have "gather ?wm cs2 c_increment = Inr cdelt'"
    unfolding cs2_def using aw lenw1 glI1 lw'
    by (rule gather_stored) (simp_all add: put_increment_def)
  then show "increment (S\<lparr>coordinates_p := cs2\<rparr>) = Inr cdelt'"
    by (simp add: increment_def world_vector_gather)
  have "gather ?wm cs2 c_referenceValue = gather ?wm ?cs c_referenceValue"
    using g2 [of c_referenceValue ?wm] g1 [of c_referenceValue ?wm]
    by (simp add: put_increment_def put_referencePixel_def)
  then show "referenceValue (S\<lparr>coordinates_p := cs2\<rparr>) = referenceValue S"
    by (simp add: referenceValue_def world_vector_gather)
  have "gather ?wm cs2 c_worldAxisNames = gather ?wm ?cs c_worldAxisNames"
    using g2 [of c_worldAxisNames ?wm] g1 [of c_worldAxisNames ?wm]
    by (simp add: put_increment_def put_referencePixel_def)
  then show "worldAxisNames (S\<lparr>coordinates_p := cs2\<rparr>) = worldAxisNames S"
    by (simp add: worldAxisNames_def world_vector_gather)
  have "gather ?wm cs2 c_worldAxisUnits = gather ?wm ?cs c_worldAxisUnits"
    using g2 [of c_worldAxisUnits ?wm] g1 [of c_worldAxisUnits ?wm]
    by (simp add: put_increment_def put_referencePixel_def)
  then show "worldAxisUnits (S\<lparr>coordinates_p := cs2\<rparr>) = worldAxisUnits S"
    by (simp add: worldAxisUnits_def world_vector_gather)
  have l2: "length cs2 = length ?cs" by (simp add: cs2_def l1)
  have x: "c_linearTransform (cs2 ! i) = c_linearTransform (?cs ! i)" if "i < length ?cs" for i
    using that l1 by (simp add: cs2_def stored_nth n1 put_increment_def put_referencePixel_def)
  show "linearTransform (S\<lparr>coordinates_p := cs2\<rparr>) = linearTransform S"
    by (rule linearTransform_cong) (simp_all add: l2 x)
qed

section \<open>Claim C6: subImage\<close>

text \<open>
  Claim C6, as amended. For a reachable system whose sub-coordinates hold vectors of their
  own numbers of axes, with \<open>n\<close> pixel axes and at least \<open>n\<close> world axes, and for
  \<open>originShift\<close> and \<open>pixinc\<close> of length \<open>n\<close>: when every \<open>pixinc[i]\<close> is at least 1,
  \<^verbatim>\<open>subImage\<close> returns a system whose reference pixel on pixel axis \<open>i\<close> is
  \<open>(refpix[i] - originShift[i]) / pixinc[i]\<close> and whose increment has entry \<open>i\<close> multiplied
  by \<open>pixinc[i]\<close> for every \<open>i < n\<close>, with the reference value, the linear transform, the
  axis names and units and the maps unchanged; when some \<open>pixinc[i]\<close> is below 1 the call
  fails on the assertion \<open>pixinc(i) >= 1\<close>.
\<close>

theorem subImage_rescales:
  assumes r: "reachable S" and co: "list_all coord_ok (coordinates_p S)"
    and l1: "length originShift = nPixelAxes S" and l2: "length pixinc = nPixelAxes S"
    and nw: "nPixelAxes S \<le> nWorldAxes S"
  shows "((\<forall>i < nPixelAxes S. 1 \<le> pixinc ! i) \<longrightarrow>
           (\<exists>S' crpix cdelt.
              referencePixel S = Inr crpix \<and> increment S = Inr cdelt
              \<and> subImage S originShift pixinc = Inr S'
              \<and> referencePixel S' = Inr (sub_refpix crpix originShift pixinc)
              \<and> increment S' = Inr (sub_increment (nPixelAxes S) cdelt pixinc)
              \<and> referenceValue S' = referenceValue S
              \<and> linearTransform S' = linearTransform S
              \<and> worldAxisNames S' = worldAxisNames S
              \<and> worldAxisUnits S' = worldAxisUnits S
              \<and> world_maps_p S' = world_maps_p S \<and> pixel_maps_p S' = pixel_maps_p S))
       \<and> ((\<exists>i < nPixelAxes S. pixinc ! i < 1) \<longrightarrow>
            subImage S originShift pixinc = Inl InvalidIncrement)"
proof -
  let ?cs = "coordinates_p S"
  let ?wm = "world_maps_p S"
  let ?pm = "pixel_maps_p S"
  let ?np = "nPixelAxes S"
  note mo = reachable_maps_ok [OF r] and so = reachable_shape_ok [OF r]
  from mo have aw: "axes_ok ?wm" and ap: "axes_ok ?pm" by (simp_all add: maps_ok_def)
  from so have lenw: "length ?wm = length ?cs" and lenp: "length ?pm = length ?cs"
    by (simp_all add: shape_ok_def)
  have glP: "length (c_referencePixel (?cs ! i)) = length (?pm ! i)" if "i < length ?cs" for i
    using so coord_ok_nth [OF co that] that by (simp add: shape_ok_def coord_ok_def)
  have glI: "length (c_increment (?cs ! i)) = length (?wm ! i)" if "i < length ?cs" for i
    using so coord_ok_nth [OF co that] that by (simp add: shape_ok_def coord_ok_def)
  from gather_length [of ?pm ?cs c_referencePixel, OF ap lenp glP] obtain crpix where
    crpix: "referencePixel S = Inr crpix" "length crpix = ?np"
    by (auto simp: referencePixel_def pixel_vector_gather nPixelAxes_def)
  from gather_length [of ?wm ?cs c_increment, OF aw lenw glI] obtain cdelt where
    cdelt: "increment S = Inr cdelt" "length cdelt = nWorldAxes S"
    by (auto simp: increment_def world_vector_gather nWorldAxes_def)
  show ?thesis
  proof (intro conjI impI)
    assume pos: "\<forall>i < ?np. 1 \<le> pixinc ! i"
    let ?p = "sub_refpix crpix originShift pixinc"
    let ?d = "sub_increment ?np cdelt pixinc"
    have loop: "subImage_loop [0..<?np] originShift pixinc crpix cdelt = Inr (?p, ?d)"
      using crpix(2) cdelt(2) nw pos by (intro subImage_loop_all) simp_all
    have lp: "length ?p = ?np" by (simp add: sub_refpix_def crpix(2))
    have lw: "length ?d = nWorldAxes S" by (simp add: sub_increment_def cdelt(2))
    note st = subImage_stores [OF mo so co lp lw]
    let ?S' = "S\<lparr>coordinates_p :=
                 stored ?wm (stored ?pm ?cs c_referencePixel put_referencePixel ?p)
                   c_increment put_increment ?d\<rparr>"
    have sub: "subImage S originShift pixinc = Inr ?S'"
      using l1 l2 by (simp add: subImage_def crpix(1) cdelt(1) loop st(1,2))
    show "\<exists>S' crpix cdelt.
              referencePixel S = Inr crpix \<and> increment S = Inr cdelt
              \<and> subImage S originShift pixinc = Inr S'
              \<and> referencePixel S' = Inr (sub_refpix crpix originShift pixinc)
              \<and> increment S' = Inr (sub_increment (nPixelAxes S) cdelt pixinc)
              \<and> referenceValue S' = referenceValue S
              \<and> linearTransform S' = linearTransform S
              \<and> worldAxisNames S' = worldAxisNames S
              \<and> worldAxisUnits S' = worldAxisUnits S
              \<and> world_maps_p S' = world_maps_p S \<and> pixel_maps_p S' = pixel_maps_p S"
      using crpix(1) cdelt(1) sub st(3-8)
      by (intro exI [of _ ?S'] exI [of _ crpix] exI [of _ cdelt]) simp
  next
    assume "\<exists>i < ?np. pixinc ! i < 1"
    then obtain i where "i < ?np" "pixinc ! i < 1" by blast
    then have "i \<in> set [0..<?np]" "\<not> 1 \<le> pixinc ! i" by simp_all
    then have ex: "\<exists>i \<in> set [0..<?np]. \<not> 1 \<le> pixinc ! i" by blast
    have "subImage_loop [0..<?np] originShift pixinc crpix cdelt = Inl InvalidIncrement"
      using ex crpix(2) cdelt(2) nw by (intro subImage_loop_fails) auto
    then show "subImage S originShift pixinc = Inl InvalidIncrement"
      using l1 l2 by (simp add: subImage_def crpix(1) cdelt(1))
  qed
qed

lemma image_coord_fields:
  "c_nWorldAxes image_coord = 2" "c_nPixelAxes image_coord = 2"
  "c_referencePixel image_coord = [256, 256]" "c_increment image_coord = [1, 1]"
  "c_referenceValue image_coord = [0, 0]" "coord_ok image_coord"
  by (simp_all add: image_coord_def linear_coord_def coord_ok_def upt_2 numeral_2_eq_2)

lemma image_sys_eq:
  "image_sys = \<lparr>coordinates_p = [image_coord], world_maps_p = [[0, 1]],
      world_tmps_p = [[0, 0]], world_replacement_values_p = [[0, 0]],
      pixel_maps_p = [[0, 1]], pixel_tmps_p = [[0, 0]],
      pixel_replacement_values_p = [[0, 0]]\<rparr>"
  by (simp add: image_sys_def addCoordinate_def empty_system_def nWorldAxes_def nPixelAxes_def
      count_axes_def Let_def image_coord_fields upt_2 numeral_2_eq_2)

lemma image_sys_axes: "nPixelAxes image_sys = 2" "nWorldAxes image_sys = 2"
  by (simp_all add: image_sys_eq nPixelAxes_def nWorldAxes_def count_axes_def)

lemma image_sys_vectors:
  "referencePixel image_sys = Inr [256, 256]" "increment image_sys = Inr [1, 1]"
  by (simp_all add: referencePixel_def increment_def pixel_vector_def world_vector_def
      image_sys_axes upt_0_2 findPixelAxis_def findWorldAxis_def image_sys_eq find_axis_def
      axis_entry_def image_coord_fields nPixelAxes_def nWorldAxes_def count_axes_def)

lemma image_sys_reachable: "reachable image_sys"
  unfolding image_sys_def by (intro reachable.intros)

lemma all_less_2: "(\<forall>i < (2::nat). P i) \<longleftrightarrow> P 0 \<and> P 1"
  by (auto simp: less_2_cases_iff)

lemma ex_less_2: "(\<exists>i < (2::nat). P i) \<longleftrightarrow> P 0 \<or> P 1"
  by (auto simp: less_2_cases_iff)

theorem subImage_rescales_witness:
  "reachable image_sys \<and> list_all coord_ok (coordinates_p image_sys)
   \<and> length [100, 200 :: int] = nPixelAxes image_sys
   \<and> length [2, 2 :: int] = nPixelAxes image_sys
   \<and> nPixelAxes image_sys \<le> nWorldAxes image_sys
   \<and> 1 \<le> [2, 2 :: int] ! 0 \<and> 1 \<le> [2, 2 :: int] ! 1
   \<and> (\<exists>S'. subImage image_sys [100, 200] [2, 2] = Inr S'
          \<and> referencePixel S' = Inr [78, 28]
          \<and> increment S' = Inr [2, 2]
          \<and> referenceValue S' = referenceValue image_sys
          \<and> linearTransform S' = linearTransform image_sys
          \<and> worldAxisNames S' = worldAxisNames image_sys
          \<and> worldAxisUnits S' = worldAxisUnits image_sys
          \<and> world_maps_p S' = world_maps_p image_sys
          \<and> pixel_maps_p S' = pixel_maps_p image_sys)
   \<and> (\<exists>i < nPixelAxes image_sys. [2, 0 :: int] ! i < 1)
   \<and> subImage image_sys [100, 200] [2, 0] = Inl InvalidIncrement"
proof -
  have co: "list_all coord_ok (coordinates_p image_sys)"
    by (simp add: image_sys_eq image_coord_fields)
  have l: "length [100, 200 :: int] = nPixelAxes image_sys"
    "length [2, 2 :: int] = nPixelAxes image_sys" "length [2, 0 :: int] = nPixelAxes image_sys"
    "nPixelAxes image_sys \<le> nWorldAxes image_sys"
    by (simp_all add: image_sys_axes)
  have v: "sub_refpix [256, 256] [100, 200] [2, 2] = [78, 28]"
    "sub_increment 2 [1, 1] [2, 2] = [2, 2]"
    by (simp_all add: sub_refpix_def sub_increment_def upt_0_2)
  from subImage_rescales [OF image_sys_reachable co l(1,2,4)]
    subImage_rescales [OF image_sys_reachable co l(1,3,4)]
  show ?thesis
    using image_sys_reachable co l
    by (auto simp: image_sys_vectors image_sys_axes all_less_2 ex_less_2 v)
qed

text \<open>
  The claim as stated speaks of every system with \<open>n\<close> pixel axes. The loop of
  \<^verbatim>\<open>subImage\<close> indexes the increment, which has one entry for each world axis, by the
  pixel axis: in the system below, with two pixel axes and one world axis left, the second
  round reads \<^verbatim>\<open>cdelt(1)\<close> outside the vector, and no system is returned.
\<close>

theorem subImage_fewer_world_axes:
  "removeWorldAxis image_sys 1 0 = Inr fewer_world
   \<and> nPixelAxes fewer_world = 2 \<and> nWorldAxes fewer_world = 1
   \<and> subImage fewer_world [0, 0] [1, 1] = Inl IndexOutOfRange"
  by (simp add: image_sys_eq fewer_world_def removeWorldAxis_def findWorldAxis_def
      nWorldAxes_def nPixelAxes_def count_axes_def find_axis_def in_block_def put_block_def
      shift_down_def subImage_def referencePixel_def increment_def pixel_vector_def
      world_vector_def findPixelAxis_def axis_entry_def image_coord_fields upt_0_2 upt_1)

end
